theory Spec2Isabelle
  imports Complex_Main
begin

section \<open>Python values and errors\<close>

text \<open>
  The game is written in Python. Tile values, offsets and the score are Python's
  unbounded integers (\<open>int\<close>); the source's \<open>AnyNumber\<close> is read as an integer.
  Every exception the embedded code can raise is a value
  of \<open>error\<close>; a fallible computation returns \<open>error + 'a\<close> with \<open>Inl\<close> the raised
  exception, and \<open>ebind\<close> sequences two of them as statement order does.
\<close>

datatype error = IndexError | KeyError string | TypeError | ValueError

definition ebind :: "error + 'a \<Rightarrow> ('a \<Rightarrow> error + 'b) \<Rightarrow> error + 'b" where
  "ebind m f = (case m of Inl e \<Rightarrow> Inl e | Inr x \<Rightarrow> f x)"

text \<open>
  A \<open>for\<close> loop over a list that updates a state and has no early exit: the body runs
  for each element in order, and the first exception ends the loop.
\<close>

fun efold :: "('a \<Rightarrow> 's \<Rightarrow> error + 's) \<Rightarrow> 'a list \<Rightarrow> 's \<Rightarrow> error + 's" where
  "efold body [] s = Inr s"
| "efold body (x # xs) s = ebind (body x s) (efold body xs)"

text \<open>
  Python list subscripts. On a list of length \<open>n\<close> the subscript \<open>i\<close> is valid when
  \<open>-n \<le> i < n\<close>; a negative one counts from the end. Any other subscript raises
  IndexError. \<open>py_index\<close> gives the position that a subscript denotes.
\<close>

definition py_index :: "'a list \<Rightarrow> int \<Rightarrow> error + nat" where
  "py_index xs i =
     (if 0 \<le> i \<and> i < int (length xs) then Inr (nat i)
      else if i < 0 \<and> - int (length xs) \<le> i then Inr (nat (int (length xs) + i))
      else Inl IndexError)"

definition py_get :: "'a list \<Rightarrow> int \<Rightarrow> error + 'a" where
  "py_get xs i = ebind (py_index xs i) (\<lambda>j. Inr (xs ! j))"

definition py_set :: "'a list \<Rightarrow> int \<Rightarrow> 'a \<Rightarrow> error + 'a list" where
  "py_set xs i v = ebind (py_index xs i) (\<lambda>j. Inr (xs[j := v]))"

text \<open>The same subscript for a loop variable that is never negative.\<close>

definition list_nth :: "'a list \<Rightarrow> nat \<Rightarrow> error + 'a" where
  "list_nth xs k = (if k < length xs then Inr (xs ! k) else Inl IndexError)"

text \<open>
  \<open>range(a, b)\<close>: the integers from \<open>a\<close> up to \<open>b - 1\<close>, none when \<open>b \<le> a\<close>.
  \<open>range_nat n\<close> is \<open>range(n)\<close>, whose elements are never negative.
\<close>

definition py_range :: "int \<Rightarrow> int \<Rightarrow> int list" where
  "py_range a b = [a..b - 1]"

definition range_nat :: "int \<Rightarrow> nat list" where
  "range_nat n = [0..<nat n]"

section \<open>ArrayHelper\<close>

text \<open>
  \<open>first_non_zero_index\<close>: the loop \<open>for i in range(start_index, len(array))\<close> returns the
  first \<open>i\<close> with \<open>array[i] != 0\<close>, and \<open>-1\<close> when the loop ends without one.
\<close>

fun first_non_zero_loop :: "int list \<Rightarrow> int list \<Rightarrow> error + int" where
  "first_non_zero_loop array [] = Inr (- 1)"
| "first_non_zero_loop array (i # rest) =
     ebind (py_get array i) (\<lambda>v. if v \<noteq> 0 then Inr i else first_non_zero_loop array rest)"

definition first_non_zero_index :: "int list \<Rightarrow> int \<Rightarrow> error + int" where
  "first_non_zero_index array start_index =
     first_non_zero_loop array (py_range start_index (int (length array)))"

text \<open>
  \<open>transpose_columns\<close> is \<open>[list(row) for row in zip(*array)]\<close>: \<open>zip\<close> stops at the
  shortest argument, and yields nothing for no argument.
\<close>

definition transpose_columns :: "'a list list \<Rightarrow> 'a list list" where
  "transpose_columns array =
     (case array of
        [] \<Rightarrow> []
      | first # others \<Rightarrow>
          map (\<lambda>k. map (\<lambda>line. line ! k) array)
            [0..<fold min (map length others) (length first)])"

section \<open>Sliding one line\<close>

datatype SlideDirection = NONE | UP | RIGHT | DOWN | LEFT

text \<open>
  The local variables of \<open>Game._slide_helper\<close> that its loop updates, with the score of
  the game (the only field of \<open>self\<close> the loop writes). \<open>accessed\<close> is not a variable
  of the source: it records, in order, every subscript the loop has applied to
  \<open>l_copy\<close>, \<open>new_list\<close> or \<open>movement\<close>, so that statements about the indices
  used can be made.
\<close>

record slide_state =
  new_list :: "int list"
  movement :: "int list"
  new_index :: int
  score_acc :: int
  accessed :: "int list"

definition note_index :: "int \<Rightarrow> slide_state \<Rightarrow> slide_state" where
  "note_index j s = s\<lparr>accessed := accessed s @ [j]\<rparr>"

text \<open>
  One iteration of the loop body for the index \<open>i\<close>. \<open>rtv\<close> is the value of
  \<open>self.config.root_tile_value\<close>. The three branches are the merge, the placement in
  the empty slot at \<open>new_index\<close>, and the placement in the next slot.
\<close>

definition slide_step :: "int \<Rightarrow> int list \<Rightarrow> int \<Rightarrow> slide_state \<Rightarrow> error + slide_state" where
  "slide_step rtv l_copy i s0 =
     ebind (py_get l_copy i) (\<lambda>v.
       let s1 = note_index i s0 in
       if v = 0 then Inr s1
       else
         ebind (py_get (new_list s1) (new_index s1)) (\<lambda>w.
           let s = note_index (new_index s1) s1 in
           if v = w then
             ebind (py_set (new_list s) (new_index s) (w * rtv)) (\<lambda>nl.
             ebind (py_set (movement s) i (new_index s - i)) (\<lambda>mv.
               Inr (s\<lparr>new_list := nl, movement := mv,
                       new_index := new_index s + 1,
                       score_acc := score_acc s + v * rtv\<rparr>)))
           else if w = 0 then
             ebind (py_set (new_list s) (new_index s) v) (\<lambda>nl.
             ebind (py_set (movement s) i (new_index s - i)) (\<lambda>mv.
               Inr (s\<lparr>new_list := nl, movement := mv\<rparr>)))
           else
             ebind (py_set (new_list s) (new_index s + 1) v) (\<lambda>nl.
             ebind (py_set (movement s) i (new_index s + 1 - i)) (\<lambda>mv.
               Inr ((note_index (new_index s + 1) s)
                      \<lparr>new_list := nl, movement := mv, new_index := new_index s + 1\<rparr>)))))"

definition reverse_direction :: "SlideDirection \<Rightarrow> bool" where
  "reverse_direction direction = (direction = DOWN \<or> direction = RIGHT)"

text \<open>
  \<open>slide_run\<close> is \<open>_slide_helper\<close> up to the end of its loop: the copy, the reversal for
  DOWN and RIGHT, the two zero-filled buffers, and the loop over
  \<open>range(start_index, len(l_copy))\<close>. \<open>slide_helper\<close> adds the final reversal and
  returns the new line, the movement offsets and the updated score.
\<close>

definition slide_run :: "int \<Rightarrow> int \<Rightarrow> SlideDirection \<Rightarrow> int list \<Rightarrow> error + slide_state" where
  "slide_run rtv sc direction row_o_col =
     (let l_copy = (if reverse_direction direction then rev row_o_col else row_o_col);
          init = \<lparr>new_list = map (\<lambda>_. 0) l_copy, movement = map (\<lambda>_. 0) l_copy,
                  new_index = 0, score_acc = sc, accessed = []\<rparr>
      in ebind (first_non_zero_index l_copy 0) (\<lambda>start_index.
           efold (slide_step rtv l_copy) (py_range start_index (int (length l_copy))) init))"

definition slide_helper ::
  "int \<Rightarrow> int \<Rightarrow> SlideDirection \<Rightarrow> int list \<Rightarrow> error + (int list \<times> int list \<times> int)" where
  "slide_helper rtv sc direction row_o_col =
     ebind (slide_run rtv sc direction row_o_col) (\<lambda>s.
       if reverse_direction direction
       then Inr (rev (new_list s), map uminus (rev (movement s)), score_acc s)
       else Inr (new_list s, movement s, score_acc s))"

section \<open>Tiles and the grid\<close>

text \<open>A \<open>Tile\<close> has a value (0 is the empty cell) and a momentum, NONE by default.\<close>

record Tile =
  tile_value :: int
  momentum :: SlideDirection

definition Tile_init :: "int \<Rightarrow> Tile" where
  "Tile_init v = \<lparr>tile_value = v, momentum = NONE\<rparr>"

text \<open>
  Modelled from the spec: the class \<open>Grid\<close> (module \<open>src.tiled_tools.common.grid\<close>) is
  not among the sources. The spec describes it as a 2D container of cells indexed by
  (column, row) with \<open>0 \<le> column, row < size\<close>, built from the list of its rows, with
  \<open>get(col,row)\<close>, \<open>set(col,row,tile)\<close>, \<open>get_row(row)\<close>, \<open>get_col(col)\<close> and
  \<open>get_adjacent(col,row)\<close>, the up, down, left and right neighbours that exist
  on the board. Here a grid is the list of its rows, top to bottom, so that
  \<open>Grid(rows)\<close> and \<open>tolist()\<close> are the identity, and a coordinate is a natural
  number; an access outside the board is an IndexError.
\<close>

type_synonym Grid = "Tile list list"

definition on_board :: "Grid \<Rightarrow> nat \<Rightarrow> nat \<Rightarrow> bool" where
  "on_board g c r = (r < length g \<and> c < length (g ! r))"

definition grid_get :: "Grid \<Rightarrow> nat \<Rightarrow> nat \<Rightarrow> error + Tile" where
  "grid_get g c r = (if on_board g c r then Inr (g ! r ! c) else Inl IndexError)"

definition grid_set :: "Grid \<Rightarrow> nat \<Rightarrow> nat \<Rightarrow> Tile \<Rightarrow> error + Grid" where
  "grid_set g c r t =
     (if on_board g c r then Inr (g[r := (g ! r)[c := t]]) else Inl IndexError)"

definition grid_get_row :: "Grid \<Rightarrow> nat \<Rightarrow> error + Tile list" where
  "grid_get_row g r = list_nth g r"

definition grid_get_col :: "Grid \<Rightarrow> nat \<Rightarrow> error + Tile list" where
  "grid_get_col g c =
     (if list_all (\<lambda>row. c < length row) g then Inr (map (\<lambda>row. row ! c) g)
      else Inl IndexError)"

definition adjacent_cells :: "nat \<Rightarrow> nat \<Rightarrow> (nat \<times> nat) list" where
  "adjacent_cells c r =
     (if 0 < r then [(c, r - 1)] else []) @ [(c, r + 1)] @
     (if 0 < c then [(c - 1, r)] else []) @ [(c + 1, r)]"

definition grid_get_adjacent :: "Grid \<Rightarrow> nat \<Rightarrow> nat \<Rightarrow> Tile list" where
  "grid_get_adjacent g c r =
     map (\<lambda>(c', r'). g ! r' ! c') (filter (\<lambda>(c', r'). on_board g c' r') (adjacent_cells c r))"

section \<open>The game\<close>

record GameConfig =
  grid_size :: int
  spawn_tile_count :: int
  starting_tile_count :: int
  win_tile_value :: int
  mutation_probability :: real
  mutation_at_start :: bool
  spawn_kill :: bool
  root_tile_value :: int

text \<open>
  A spawn location (column, row) as a Python value: the tuple that \<open>_spawn_new_tile\<close>
  returns, or the two-element list that \<open>json.loads\<close> gives for a JSON array. The two
  are different values: Python's \<open>(1, 0) == [1, 0]\<close> is false.
\<close>

datatype location = PyTuple nat nat | PyList nat nat

text \<open>
  The fields of a \<open>Game\<close>. The initial spawn stores None for a tile that found no
  empty cell.
\<close>

record Game =
  config :: GameConfig
  init_mode :: bool
  grid :: Grid
  score :: int
  movement_matrix :: "int list list"
  latest_spawn_result :: "bool option"
  latest_spawn_locations :: "location option list"

text \<open>
  The nested loops \<open>for r in range(size): for c in range(size)\<close> visit the pairs
  \<open>(r, c)\<close> in this order.
\<close>

definition grid_cells :: "int \<Rightarrow> (nat \<times> nat) list" where
  "grid_cells n = List.product (range_nat n) (range_nat n)"

definition set_tiles :: "Game \<Rightarrow> Tile list list \<Rightarrow> error + Game" where
  "set_tiles gm new_tiles =
     ebind
       (efold
          (\<lambda>(r, c) g.
             ebind (list_nth new_tiles r) (\<lambda>row.
             ebind (list_nth row c) (\<lambda>t. grid_set g c r t)))
          (grid_cells (grid_size (config gm))) (grid gm))
       (\<lambda>g. Inr (gm\<lparr>grid := g\<rparr>))"

text \<open>
  \<open>slide_each_row\<close> and \<open>slide_each_column\<close> run the same loop body, on
  \<open>get_row(r)\<close> and on \<open>get_col(c)\<close>: the values of the line are slid by
  \<open>_slide_helper\<close>, which adds to the score of the game, and the new line and its
  movement are appended to the two results.
\<close>

definition slide_line ::
  "SlideDirection \<Rightarrow> (Grid \<Rightarrow> nat \<Rightarrow> error + Tile list) \<Rightarrow> nat \<Rightarrow>
   int list list \<times> int list list \<times> Game \<Rightarrow> error + (int list list \<times> int list list \<times> Game)" where
  "slide_line direction get_line k acc =
     (case acc of (new_grid_values, mm, gm) \<Rightarrow>
        ebind (get_line (grid gm) k) (\<lambda>line.
        ebind (slide_helper (root_tile_value (config gm)) (score gm) direction
                 (map tile_value line)) (\<lambda>(new_line, mv, sc).
          Inr (new_grid_values @ [new_line], mm @ [mv], gm\<lparr>score := sc\<rparr>))))"

definition slide_each_row ::
  "Game \<Rightarrow> SlideDirection \<Rightarrow> error + (int list list \<times> int list list \<times> Game)" where
  "slide_each_row gm direction =
     efold (slide_line direction grid_get_row) (range_nat (grid_size (config gm))) ([], [], gm)"

definition slide_each_column ::
  "Game \<Rightarrow> SlideDirection \<Rightarrow> error + (int list list \<times> int list list \<times> Game)" where
  "slide_each_column gm direction =
     ebind
       (efold (slide_line direction grid_get_col) (range_nat (grid_size (config gm))) ([], [], gm))
       (\<lambda>(new_grid_values, mm, gm').
          Inr (transpose_columns new_grid_values, transpose_columns mm, gm'))"

text \<open>
  \<open>slide_tiles\<close> returns the game it has updated; the value the source returns is the
  new \<open>movement_matrix\<close> field.
\<close>

definition slide_tiles :: "Game \<Rightarrow> SlideDirection \<Rightarrow> error + Game" where
  "slide_tiles gm direction =
     ebind
       (if direction = UP \<or> direction = DOWN then slide_each_column gm direction
        else slide_each_row gm direction)
       (\<lambda>(new_grid_values, mm, gm1).
          ebind (set_tiles gm1 (map (map Tile_init) new_grid_values)) (\<lambda>gm2.
            Inr (gm2\<lparr>movement_matrix := mm\<rparr>)))"

text \<open>\<open>can_play\<close>: the two loops over the cells, left at the first \<open>return True\<close>.\<close>

fun can_play_cells :: "Grid \<Rightarrow> (nat \<times> nat) list \<Rightarrow> error + bool" where
  "can_play_cells g [] = Inr False"
| "can_play_cells g ((r, c) # rest) =
     ebind (grid_get g c r) (\<lambda>tile.
       if tile_value tile = 0 then Inr True
       else if list_ex (\<lambda>neighbor. tile_value neighbor = tile_value tile)
                 (grid_get_adjacent g c r)
       then Inr True
       else can_play_cells g rest)"

definition can_play :: "Game \<Rightarrow> error + bool" where
  "can_play gm = can_play_cells (grid gm) (grid_cells (grid_size (config gm)))"

section \<open>Spawning and construction\<close>

text \<open>
  The two random generators the game draws from (\<open>random\<close> and \<open>numpy.random\<close>), as
  a state passed along: each is an arbitrary infinite sequence of draws and the number of
  draws taken so far. \<open>randint(a, b)\<close> maps its draw into \<open>a..b\<close> and raises
  ValueError on an empty range; \<open>np_rand\<close> is \<open>np.random.rand()\<close>.
\<close>

record RandomSource =
  randint_draws :: "nat \<Rightarrow> nat"
  randint_calls :: nat
  rand_draws :: "nat \<Rightarrow> real"
  rand_calls :: nat

definition randint :: "RandomSource \<Rightarrow> int \<Rightarrow> int \<Rightarrow> error + (int \<times> RandomSource)" where
  "randint rs a b =
     (if b < a then Inl ValueError
      else Inr (a + int (randint_draws rs (randint_calls rs)) mod (b - a + 1),
                rs\<lparr>randint_calls := randint_calls rs + 1\<rparr>))"

definition np_rand :: "RandomSource \<Rightarrow> real \<times> RandomSource" where
  "np_rand rs = (rand_draws rs (rand_calls rs), rs\<lparr>rand_calls := rand_calls rs + 1\<rparr>)"

definition build_grid_with_value :: "int \<Rightarrow> int \<Rightarrow> Grid" where
  "build_grid_with_value v n = map (\<lambda>_. map (\<lambda>_. Tile_init v) (range_nat n)) (range_nat n)"

definition get_empty_tiles :: "Game \<Rightarrow> error + (nat \<times> nat) list" where
  "get_empty_tiles gm =
     efold
       (\<lambda>(r, c) empty_tiles.
          ebind (grid_get (grid gm) c r) (\<lambda>tile.
            Inr (if tile_value tile = 0 then empty_tiles @ [(c, r)] else empty_tiles)))
       (grid_cells (grid_size (config gm))) []"

definition get_new_tile_value :: "Game \<Rightarrow> RandomSource \<Rightarrow> int \<times> RandomSource" where
  "get_new_tile_value gm rs =
     (case np_rand rs of (u, rs') \<Rightarrow>
        let rtv = root_tile_value (config gm);
            should_mutate = (u < mutation_probability (config gm));
            mutated_value = rtv * rtv
        in (if init_mode gm
            then (if mutation_at_start (config gm) \<and> should_mutate then mutated_value else rtv)
            else (if \<not> should_mutate then rtv else mutated_value),
            rs'))"

definition get_random_empty_tile ::
  "Game \<Rightarrow> RandomSource \<Rightarrow> error + ((nat \<times> nat) option \<times> RandomSource)" where
  "get_random_empty_tile gm rs =
     ebind (get_empty_tiles gm) (\<lambda>empty_tiles.
       if empty_tiles \<noteq> [] then
         ebind (randint rs 0 (int (length empty_tiles) - 1)) (\<lambda>(random_index, rs').
         ebind (py_get empty_tiles random_index) (\<lambda>pos. Inr (Some pos, rs')))
       else Inr (None, rs))"

text \<open>
  \<open>_spawn_new_tile\<close> draws the value of the new tile first, then the cell; it returns
  the cell, or None when no cell is empty.
\<close>

definition spawn_new_tile ::
  "Game \<Rightarrow> RandomSource \<Rightarrow> error + ((nat \<times> nat) option \<times> Game \<times> RandomSource)" where
  "spawn_new_tile gm rs =
     (case get_new_tile_value gm rs of (v, rs1) \<Rightarrow>
        ebind (get_random_empty_tile gm rs1) (\<lambda>(new_tile_pos, rs2).
          case new_tile_pos of
            None \<Rightarrow> Inr (None, gm, rs2)
          | Some (c, r) \<Rightarrow>
              ebind (grid_set (grid gm) c r (Tile_init v)) (\<lambda>g.
                Inr (Some (c, r), gm\<lparr>grid := g\<rparr>, rs2))))"

definition initial_spawn :: "Game \<Rightarrow> RandomSource \<Rightarrow> error + (Game \<times> RandomSource)" where
  "initial_spawn gm rs =
     ebind
       (efold
          (\<lambda>_ (spawn_locations, gm1, rs1).
             ebind (spawn_new_tile gm1 rs1) (\<lambda>(loc, gm2, rs2).
               Inr (spawn_locations @ [map_option (\<lambda>(c, r). PyTuple c r) loc], gm2, rs2)))
          (range_nat (starting_tile_count (config gm))) ([], gm, rs))
       (\<lambda>(spawn_locations, gm1, rs1).
          Inr (gm1\<lparr>init_mode := False, latest_spawn_locations := spawn_locations\<rparr>, rs1))"

text \<open>\<open>Game.__init__\<close>: the fields are set, then the initial spawn runs.\<close>

definition Game_init :: "GameConfig \<Rightarrow> RandomSource \<Rightarrow> error + (Game \<times> RandomSource)" where
  "Game_init cfg rs =
     initial_spawn
       \<lparr>config = cfg, init_mode = True,
        grid = build_grid_with_value 0 (grid_size cfg),
        score = 0,
        movement_matrix =
          map (\<lambda>_. map (\<lambda>_. 0) (range_nat (grid_size cfg))) (range_nat (grid_size cfg)),
        latest_spawn_result = None, latest_spawn_locations = []\<rparr>
       rs"

section \<open>Saving and loading\<close>

text \<open>
  The keyword arguments of \<open>GameConfig(**d)\<close>: each field is given or not, and
  \<open>kw_other\<close> lists the keys of \<open>d\<close> that are no field of the dataclass. A field that
  is not given takes the default of the dataclass; a key that is no field raises
  TypeError. The typed record leaves out values of another type than the field's.
\<close>

record config_kwargs =
  kw_grid_size :: "int option"
  kw_spawn_tile_count :: "int option"
  kw_starting_tile_count :: "int option"
  kw_win_tile_value :: "int option"
  kw_mutation_probability :: "real option"
  kw_mutation_at_start :: "bool option"
  kw_spawn_kill :: "bool option"
  kw_root_tile_value :: "int option"
  kw_other :: "string list"

definition or_default :: "'a option \<Rightarrow> 'a \<Rightarrow> 'a" where
  "or_default given dflt = (case given of None \<Rightarrow> dflt | Some v \<Rightarrow> v)"

definition GameConfig_init :: "config_kwargs \<Rightarrow> error + GameConfig" where
  "GameConfig_init kw =
     (if kw_other kw \<noteq> [] then Inl TypeError
      else Inr \<lparr>grid_size = or_default (kw_grid_size kw) 4,
                spawn_tile_count = or_default (kw_spawn_tile_count kw) 2,
                starting_tile_count = or_default (kw_starting_tile_count kw) 2,
                win_tile_value = or_default (kw_win_tile_value kw) (2 ^ 11),
                mutation_probability = or_default (kw_mutation_probability kw) (1 / 10),
                mutation_at_start = or_default (kw_mutation_at_start kw) True,
                spawn_kill = or_default (kw_spawn_kill kw) False,
                root_tile_value = or_default (kw_root_tile_value kw) 2\<rparr>)"

text \<open>\<open>config.__dict__\<close>: every field of the dataclass under its name.\<close>

definition config_dict :: "GameConfig \<Rightarrow> config_kwargs" where
  "config_dict cfg =
     \<lparr>kw_grid_size = Some (grid_size cfg),
      kw_spawn_tile_count = Some (spawn_tile_count cfg),
      kw_starting_tile_count = Some (starting_tile_count cfg),
      kw_win_tile_value = Some (win_tile_value cfg),
      kw_mutation_probability = Some (mutation_probability cfg),
      kw_mutation_at_start = Some (mutation_at_start cfg),
      kw_spawn_kill = Some (spawn_kill cfg),
      kw_root_tile_value = Some (root_tile_value cfg),
      kw_other = []\<rparr>"

text \<open>
  The dictionary that \<open>to_dict\<close> builds and \<open>load\<close> reads: a key is present with its
  value, or absent (None), in which case the subscript \<open>game_dict[key]\<close> raises KeyError.
  The typed record holds the values that \<open>to_json\<close> writes; a value of another JSON
  type than its field's is not represented.
\<close>

record game_dict =
  d_config :: "config_kwargs option"
  d_grid :: "int list list option"
  d_score :: "int option"
  d_movement_matrix :: "int list list option"
  d_latest_spawn_result :: "bool option option"
  d_latest_spawn_locations :: "location option list option"

definition dict_get :: "string \<Rightarrow> 'a option \<Rightarrow> error + 'a" where
  "dict_get key entry = (case entry of None \<Rightarrow> Inl (KeyError key) | Some v \<Rightarrow> Inr v)"

definition to_dict :: "Game \<Rightarrow> game_dict" where
  "to_dict gm =
     \<lparr>d_config = Some (config_dict (config gm)),
      d_grid = Some (map (map tile_value) (grid gm)),
      d_score = Some (score gm),
      d_movement_matrix = Some (movement_matrix gm),
      d_latest_spawn_result = Some (latest_spawn_result gm),
      d_latest_spawn_locations = Some (latest_spawn_locations gm)\<rparr>"

text \<open>
  \<open>json.dumps\<close> and \<open>json.loads\<close> belong to Python's standard library; they are the
  parameters \<open>dumps\<close> and \<open>loads\<close> of \<open>to_json\<close> and \<open>load\<close>. JSON has no
  tuples: \<open>json.dumps\<close> writes a tuple and a list as the same array, and
  \<open>json.loads\<close> reads an array as a list. \<open>json_form d\<close> is the dictionary that
  reading gives back for the text written for \<open>d\<close>: \<open>d\<close> with a list for every tuple.
\<close>

fun as_list :: "location \<Rightarrow> location" where
  "as_list (PyTuple c r) = PyList c r"
| "as_list (PyList c r) = PyList c r"

definition json_form :: "game_dict \<Rightarrow> game_dict" where
  "json_form d =
     d\<lparr>d_latest_spawn_locations :=
         map_option (map (map_option as_list)) (d_latest_spawn_locations d)\<rparr>"

definition to_json :: "(game_dict \<Rightarrow> string) \<Rightarrow> Game \<Rightarrow> string" where
  "to_json dumps gm = dumps (to_dict gm)"

definition load_dict :: "game_dict \<Rightarrow> RandomSource \<Rightarrow> error + (Game \<times> RandomSource)" where
  "load_dict gd rs =
     ebind (dict_get ''config'' (d_config gd)) (\<lambda>kw.
     ebind (GameConfig_init kw) (\<lambda>cfg.
     ebind (Game_init cfg rs) (\<lambda>(gm, rs').
     ebind (dict_get ''grid'' (d_grid gd)) (\<lambda>rows.
     ebind (set_tiles gm (map (map Tile_init) rows)) (\<lambda>gm1.
     ebind (dict_get ''score'' (d_score gd)) (\<lambda>sc.
     ebind (dict_get ''movement_matrix'' (d_movement_matrix gd)) (\<lambda>mm.
     ebind (dict_get ''latest_spawn_result'' (d_latest_spawn_result gd)) (\<lambda>res.
     ebind (dict_get ''latest_spawn_locations'' (d_latest_spawn_locations gd)) (\<lambda>locs.
       Inr (gm1\<lparr>score := sc, movement_matrix := mm, latest_spawn_result := res,
                latest_spawn_locations := locs\<rparr>, rs'))))))))))"

definition load ::
  "(string \<Rightarrow> error + game_dict) \<Rightarrow> string \<Rightarrow> RandomSource \<Rightarrow> error + (Game \<times> RandomSource)" where
  "load loads json_string rs = ebind (loads json_string) (\<lambda>gd. load_dict gd rs)"

section \<open>Predicates of the statements\<close>

text \<open>
  The invariant of the loop of \<open>_slide_helper\<close> before the iteration for the index
  \<open>i\<close>, on the line \<open>l\<close> and the initial score \<open>sc0\<close>: the buffers keep the
  length of the line; \<open>new_index\<close> is behind \<open>i\<close>, strictly when its slot is
  occupied; every subscript used so far is at least \<open>-1\<close> and below the length, and
  \<open>-1\<close> was used only on a line of zeros; no offset is written from \<open>i\<close> on; and while
  every offset is zero, the output buffer is the line read so far and the score is
  unchanged.
\<close>

definition slide_inv :: "int list \<Rightarrow> int \<Rightarrow> nat \<Rightarrow> slide_state \<Rightarrow> bool" where
  "slide_inv l sc0 i s \<longleftrightarrow>
      length (new_list s) = length l \<and> length (movement s) = length l \<and>
      0 \<le> new_index s \<and> new_index s \<le> int i \<and>
      (new_list s ! nat (new_index s) \<noteq> 0 \<longrightarrow> new_index s < int i) \<and>
      (\<forall>j\<in>set (accessed s). - 1 \<le> j \<and> j < int (length l)) \<and>
      (- 1 \<in> set (accessed s) \<longrightarrow> (\<forall>x\<in>set l. x = 0)) \<and>
      (\<forall>k. i \<le> k \<and> k < length l \<longrightarrow> movement s ! k = 0) \<and>
      ((\<forall>k<i. movement s ! k = 0) \<longrightarrow>
          (\<forall>k<i. new_list s ! k = l ! k) \<and>
          (\<forall>k. i \<le> k \<and> k < length l \<longrightarrow> new_list s ! k = 0) \<and> score_acc s = sc0)"

text \<open>
  The invariant of the data model: the grid of a game is square, of the side that the
  configuration gives.
\<close>

definition square_grid :: "nat \<Rightarrow> 'a list list \<Rightarrow> bool" where
  "square_grid n g = (length g = n \<and> list_all (\<lambda>row. length row = n) g)"

definition wf_game :: "Game \<Rightarrow> bool" where
  "wf_game gm = square_grid (nat (grid_size (config gm))) (grid gm)"

text \<open>
  Two cells (column, row) are 4-directionally adjacent when they share a column and
  their rows differ by one, or share a row and their columns differ by one.
\<close>

definition adjacent :: "nat \<Rightarrow> nat \<Rightarrow> nat \<Rightarrow> nat \<Rightarrow> bool" where
  "adjacent c r c' r' =
     ((c' = c \<and> (r' + 1 = r \<or> r' = r + 1)) \<or> (r' = r \<and> (c' + 1 = c \<or> c' = c + 1)))"

definition all_zero :: "int list list \<Rightarrow> bool" where
  "all_zero mm = list_all (list_all (\<lambda>x. x = 0)) mm"


text \<open>
  \<open>GameConfig()\<close>, the configuration of default values, and a game holding given tile
  values, as the tests build theirs with \<open>set_tiles\<close>.
\<close>

definition default_config :: GameConfig where
  "default_config =
     \<lparr>grid_size = 4, spawn_tile_count = 2, starting_tile_count = 2, win_tile_value = 2 ^ 11,
      mutation_probability = 1 / 10, mutation_at_start = True, spawn_kill = False,
      root_tile_value = 2\<rparr>"

definition game_with_tiles :: "GameConfig \<Rightarrow> int list list \<Rightarrow> Game" where
  "game_with_tiles cfg vals =
     \<lparr>config = cfg, init_mode = False, grid = map (map Tile_init) vals, score = 0,
      movement_matrix =
        map (\<lambda>_. map (\<lambda>_. 0) (range_nat (grid_size cfg))) (range_nat (grid_size cfg)),
      latest_spawn_result = None, latest_spawn_locations = []\<rparr>"

text \<open>A random source whose every draw is 0, for the examples.\<close>

definition fixed_draws :: RandomSource where
  "fixed_draws = \<lparr>randint_draws = (\<lambda>_. 0), randint_calls = 0,
                   rand_draws = (\<lambda>_. 0), rand_calls = 0\<rparr>"

text \<open>
  What \<open>load\<close> checks in the dictionary it reads, in the order in which it does:
  \<open>covers n rows\<close> says that the saved grid has at least \<open>n\<close> rows and that each of
  its first \<open>n\<close> rows has at least \<open>n\<close> entries; \<open>load_failure\<close> is the exception
  that the first failing step raises, or None when no step fails: KeyError for a missing
  key, TypeError for a configuration with a key that is no field, IndexError for a saved
  grid that does not cover the grid size (the given one, or the default 4).
  \<open>positive_grid_size\<close> says that this grid size is at least 1.
\<close>

definition covers :: "nat \<Rightarrow> 'a list list \<Rightarrow> bool" where
  "covers n rows = (n \<le> length rows \<and> list_all (\<lambda>row. n \<le> length row) (take n rows))"

definition load_failure :: "game_dict \<Rightarrow> error option" where
  "load_failure gd =
     (case d_config gd of
        None \<Rightarrow> Some (KeyError ''config'')
      | Some kw \<Rightarrow>
          if kw_other kw \<noteq> [] then Some TypeError
          else (case d_grid gd of
             None \<Rightarrow> Some (KeyError ''grid'')
           | Some rows \<Rightarrow>
               if \<not> covers (nat (or_default (kw_grid_size kw) 4)) rows then Some IndexError
               else if d_score gd = None then Some (KeyError ''score'')
               else if d_movement_matrix gd = None then Some (KeyError ''movement_matrix'')
               else if d_latest_spawn_result gd = None
                 then Some (KeyError ''latest_spawn_result'')
               else if d_latest_spawn_locations gd = None
                 then Some (KeyError ''latest_spawn_locations'')
               else None))"

definition positive_grid_size :: "game_dict \<Rightarrow> bool" where
  "positive_grid_size gd =
     (case d_config gd of None \<Rightarrow> True | Some kw \<Rightarrow> 0 < or_default (kw_grid_size kw) 4)"

text \<open>
  A stand-in for the JSON library that writes and reads one known document, and two
  examples: the game of the save-and-load test with two spawn locations, and a saved
  dictionary with a
  configuration that gives only the grid size, a 3x3 grid for that 2x2 game with values
  that no game produces, a negative score, a movement matrix of the wrong shape and a
  spawn location off the board.
\<close>

definition example_dumps :: "game_dict \<Rightarrow> game_dict \<Rightarrow> string" where
  "example_dumps known d = (if json_form d = json_form known then ''known'' else ''other'')"

definition example_loads :: "game_dict \<Rightarrow> string \<Rightarrow> error + game_dict" where
  "example_loads known s = (if s = ''known'' then Inr (json_form known) else Inl ValueError)"

definition malformed_save :: game_dict where
  "malformed_save =
     \<lparr>d_config = Some \<lparr>kw_grid_size = Some 2, kw_spawn_tile_count = None,
                         kw_starting_tile_count = None, kw_win_tile_value = None,
                         kw_mutation_probability = None, kw_mutation_at_start = None,
                         kw_spawn_kill = None, kw_root_tile_value = None, kw_other = []\<rparr>,
      d_grid = Some [[1, - 3, 7], [0, 5, 9], [2, 2, 2]],
      d_score = Some (- 7),
      d_movement_matrix = Some [[9]],
      d_latest_spawn_result = Some None,
      d_latest_spawn_locations = Some [Some (PyList 10 10)]\<rparr>"

definition saved_game :: Game where
  "saved_game =
     (game_with_tiles (default_config\<lparr>grid_size := 5, spawn_kill := True\<rparr>)
       [[0, 2, 4, 0, 16], [0, 0, 0, 0, 0], [0, 0, 0, 0, 8], [8, 0, 0, 0, 0], [0, 0, 0, 0, 2]])
       \<lparr>latest_spawn_locations := [Some (PyTuple 1 0), Some (PyTuple 4 4)]\<rparr>"

text \<open>
  A line in which no two neighbours are equal and not zero, and the lines of a grid of
  values along the axis of a direction: its columns for UP and DOWN, its rows otherwise.
  \<open>no_equal_neighbours direction gm\<close> says that in the grid of the game no two tiles
  that are neighbours along the axis of the direction hold the same value other than 0.
\<close>

definition no_equal_pair :: "int list \<Rightarrow> bool" where
  "no_equal_pair l = list_all (\<lambda>(a, b). \<not> (a \<noteq> 0 \<and> a = b)) (zip l (tl l))"

definition lines_along :: "SlideDirection \<Rightarrow> int list list \<Rightarrow> int list list" where
  "lines_along direction vals =
     (if direction = UP \<or> direction = DOWN then transpose_columns vals else vals)"

definition no_equal_neighbours :: "SlideDirection \<Rightarrow> Game \<Rightarrow> bool" where
  "no_equal_neighbours direction gm =
     list_all no_equal_pair (lines_along direction (map (map tile_value) (grid gm)))"

text \<open>
  For the second slide of a line. A line is compacted when its non-zero values come
  first. \<open>compact_inv\<close> is what the loop of \<open>_slide_helper\<close> keeps of this in its
  output buffer: the slots before \<open>new_index\<close> are occupied and the slots after it are
  empty. \<open>fixed_inv\<close> is what the loop keeps on a compacted line of \<open>m\<close> non-zero
  values without equal neighbours: no offset is written, and \<open>new_index\<close> follows the
  index read.
\<close>

definition compact_inv :: "int list \<Rightarrow> nat \<Rightarrow> slide_state \<Rightarrow> bool" where
  "compact_inv l i s \<longleftrightarrow>
     (\<forall>k. int k < new_index s \<longrightarrow> new_list s ! k \<noteq> 0) \<and>
     (\<forall>k. new_index s < int k \<and> k < length l \<longrightarrow> new_list s ! k = 0)"

definition compacted :: "int list \<Rightarrow> bool" where
  "compacted xs \<longleftrightarrow>
     (\<exists>m\<le>length xs. (\<forall>k<m. xs ! k \<noteq> 0) \<and> (\<forall>k. m \<le> k \<and> k < length xs \<longrightarrow> xs ! k = 0))"

definition fixed_inv :: "int list \<Rightarrow> nat \<Rightarrow> nat \<Rightarrow> slide_state \<Rightarrow> bool" where
  "fixed_inv l m i s \<longleftrightarrow>
     (\<forall>k<length l. movement s ! k = 0) \<and> (i = 0 \<longrightarrow> new_index s = 0) \<and>
     (0 < i \<and> i \<le> m \<longrightarrow> new_index s = int i - 1)"

section \<open>Evaluation rules\<close>

lemma ebind_Inr [simp]: "ebind (Inr x) f = f x"
  by (simp add: ebind_def)

lemma ebind_Inl [simp]: "ebind (Inl e) f = Inl e"
  by (simp add: ebind_def)

lemma py_range_rec: "py_range a b = (if a < b then a # py_range (a + 1) b else [])"
  by (simp add: py_range_def upto_rec1)

lemmas slide_eval =
  slide_helper_def slide_run_def reverse_direction_def first_non_zero_index_def
  py_range_rec slide_step_def note_index_def py_get_def py_set_def py_index_def

section \<open>Examples of the line slide\<close>

text \<open>
  C1. Sliding the line [2,2,2,2] toward index 0 with root tile value 2 gives [4,4,0,0] and
  adds 8 to the score; sliding [2,2,4,2] gives [4,4,2,0], the trailing 2 not merging with
  the 4 made by the earlier merge. The same holds for direction UP.
\<close>

theorem slide_helper_examples:
  "slide_helper 2 sc LEFT [2, 2, 2, 2] = Inr ([4, 4, 0, 0], [0, - 1, - 1, - 2], sc + 8)
   \<and> slide_helper 2 sc UP [2, 2, 2, 2] = Inr ([4, 4, 0, 0], [0, - 1, - 1, - 2], sc + 8)
   \<and> slide_helper 2 sc LEFT [2, 2, 4, 2] = Inr ([4, 4, 2, 0], [0, - 1, - 1, - 1], sc + 4)
   \<and> slide_helper 2 sc UP [2, 2, 4, 2] = Inr ([4, 4, 2, 0], [0, - 1, - 1, - 1], sc + 4)"
  by (simp add: slide_eval)


section \<open>Example of sliding the grid\<close>

text \<open>
  C2. On a 4x4 game with root tile value 2 and the grid
  [[2,2,2,2],[0,0,0,0],[0,0,4,0],[2,2,0,2]], \<open>slide_tiles(UP)\<close> leaves the grid
  [[4,4,2,4],[0,0,4,0],[0,0,0,0],[0,0,0,0]] and a movement matrix whose row 3 is
  [-3,-3,0,-3], so that its entry at row 3, column 0 is -3; the three merges add 12 to
  the score.
\<close>

theorem slide_tiles_up_example:
  "slide_tiles (gm\<lparr>config := (config gm)\<lparr>grid_size := 4, root_tile_value := 2\<rparr>,
          grid := map (map Tile_init) [[2, 2, 2, 2], [0, 0, 0, 0], [0, 0, 4, 0], [2, 2, 0, 2]]\<rparr>) UP
   = Inr (gm\<lparr>config := (config gm)\<lparr>grid_size := 4, root_tile_value := 2\<rparr>,
          grid := map (map Tile_init) [[4, 4, 2, 4], [0, 0, 4, 0], [0, 0, 0, 0], [0, 0, 0, 0]],
          score := score gm + 12,
          movement_matrix := [[0, 0, 0, 0], [0, 0, 0, 0], [0, 0, - 1, 0], [- 3, - 3, 0, - 3]]\<rparr>)"
  by (simp add: slide_tiles_def slide_each_column_def slide_line_def range_nat_def upt_rec
      grid_get_col_def slide_eval transpose_columns_def set_tiles_def grid_cells_def
      list_nth_def grid_set_def on_board_def Tile_init_def)

section \<open>Mirror directions\<close>

text \<open>
  C3. For every line, sliding RIGHT (DOWN) is the mirror of sliding LEFT (UP) on the
  reversed line: the values are the reverse of the values that the LEFT (UP) slide gives
  on the reversed line, the offsets are its offsets reversed and negated, and the score
  is the same. When the LEFT (UP) slide raises, so does the other, with the same
  exception.
\<close>

theorem slide_helper_mirror:
  "slide_helper rtv sc RIGHT line =
     ebind (slide_helper rtv sc LEFT (rev line))
       (\<lambda>(vals, mv, sc'). Inr (rev vals, map uminus (rev mv), sc'))
   \<and> slide_helper rtv sc DOWN line =
     ebind (slide_helper rtv sc UP (rev line))
       (\<lambda>(vals, mv, sc'). Inr (rev vals, map uminus (rev mv), sc'))"
  by (simp add: slide_helper_def slide_run_def reverse_direction_def Let_def ebind_def
      split: sum.splits)

section \<open>The direction NONE\<close>

lemma slide_helper_NONE: "slide_helper rtv sc NONE line = slide_helper rtv sc LEFT line"
  by (simp add: slide_helper_def slide_run_def reverse_direction_def)

lemma slide_line_NONE: "slide_line NONE get_line = slide_line LEFT get_line"
  by (intro ext) (simp add: slide_line_def slide_helper_NONE)

text \<open>
  C9. For every game, \<open>slide_tiles\<close> with the direction NONE does exactly what it does
  with LEFT: the same grid, movement matrix and score, or the same exception.
\<close>

theorem slide_tiles_NONE_is_LEFT: "slide_tiles gm NONE = slide_tiles gm LEFT"
  by (simp add: slide_tiles_def slide_each_row_def slide_line_NONE)

section \<open>The loop of the line slide\<close>

lemma py_index_nat [simp]: "k < length xs \<Longrightarrow> py_index xs (int k) = Inr k"
  by (simp add: py_index_def)

lemma py_get_nat [simp]: "k < length xs \<Longrightarrow> py_get xs (int k) = Inr (xs ! k)"
  by (simp add: py_get_def)

lemma py_set_nat [simp]: "k < length xs \<Longrightarrow> py_set xs (int k) v = Inr (xs[k := v])"
  by (simp add: py_set_def)

lemma slide_step_zero:
  assumes "i < length l" "l ! i = 0"
  shows "slide_step rtv l (int i) s = Inr (note_index (int i) s)"
  using assms by (simp add: slide_step_def)

lemma slide_step_nonzero:
  assumes "i < length l" "l ! i \<noteq> 0" "new_index s = int m" "m < length (new_list s)"
    "Suc m < length (new_list s) \<or> new_list s ! m = 0 \<or> new_list s ! m = l ! i"
    "i < length (movement s)"
  shows "slide_step rtv l (int i) s =
     Inr (let s1 = note_index (int m) (note_index (int i) s) in
       if l ! i = new_list s ! m then
          s1\<lparr>new_list := (new_list s)[m := new_list s ! m * rtv],
             movement := (movement s)[i := int m - int i],
             new_index := int m + 1, score_acc := score_acc s + l ! i * rtv\<rparr>
       else if new_list s ! m = 0 then
          s1\<lparr>new_list := (new_list s)[m := l ! i], movement := (movement s)[i := int m - int i]\<rparr>
       else (note_index (int m + 1) s1)\<lparr>new_list := (new_list s)[Suc m := l ! i],
             movement := (movement s)[i := int m + 1 - int i], new_index := int m + 1\<rparr>)"
proof -
  have [simp]: "int m + 1 = int (Suc m)" by simp
  show ?thesis
    using assms
    by (auto simp add: slide_step_def note_index_def Let_def simp del: of_nat_Suc)
qed


lemma slide_step_inv:
  assumes i: "i < length l" and inv: "slide_inv l sc0 i s"
  shows "\<exists>s'. slide_step rtv l (int i) s = Inr s' \<and> slide_inv l sc0 (Suc i) s'"
proof (cases "l ! i = 0")
  case True
  have "slide_inv l sc0 (Suc i) (note_index (int i) s)"
    using inv i True
    by (auto simp add: slide_inv_def note_index_def less_Suc_eq)
  then show ?thesis using slide_step_zero[OF i True] by simp
next
  case False
  define m where "m = nat (new_index s)"
  have m: "new_index s = int m" "m \<le> i" "new_list s ! m \<noteq> 0 \<longrightarrow> m < i"
    using inv by (auto simp add: slide_inv_def m_def)
  have len: "length (new_list s) = length l" "length (movement s) = length l"
    using inv by (auto simp add: slide_inv_def)
  have a5: "Suc m < length (new_list s) \<or> new_list s ! m = 0 \<or> new_list s ! m = l ! i"
    using m i len by auto
  have mlen: "m < length (new_list s)" using m i len by simp
  have ilen: "i < length (movement s)" using i len by simp
  note st = slide_step_nonzero[OF i False m(1) mlen a5 ilen, of rtv]
  have nz: "l ! i \<in> set l" using i by simp
  show ?thesis
  proof (cases "l ! i = new_list s ! m")
    case True
    then have mi: "m < i" using m False by simp
    have "slide_inv l sc0 (Suc i) (note_index (int m) (note_index (int i) s)
        \<lparr>new_list := (new_list s)[m := new_list s ! m * rtv],
             movement := (movement s)[i := int m - int i],
             new_index := int m + 1, score_acc := score_acc s + l ! i * rtv\<rparr>)"
      using inv i mi False nz len
      by (auto simp add: slide_inv_def note_index_def nth_list_update less_Suc_eq)
    then show ?thesis using st True by simp
  next
    case ne: False
    show ?thesis
    proof (cases "new_list s ! m = 0")
      case True
      have "slide_inv l sc0 (Suc i) (note_index (int m) (note_index (int i) s)
        \<lparr>new_list := (new_list s)[m := l ! i], movement := (movement s)[i := int m - int i]\<rparr>)"
        using inv i m False nz len True
        by (auto simp add: slide_inv_def note_index_def nth_list_update less_Suc_eq)
      then show ?thesis using st ne True by simp
    next
      case nz2: False
      then have mi: "m < i" using m by simp
      have "slide_inv l sc0 (Suc i) ((note_index (int m + 1) (note_index (int m) (note_index (int i) s)))
         \<lparr>new_list := (new_list s)[Suc m := l ! i],
             movement := (movement s)[i := int m + 1 - int i], new_index := int m + 1\<rparr>)"
        using inv i mi False nz len nz2
        by (auto simp add: slide_inv_def note_index_def nth_list_update less_Suc_eq)
      then show ?thesis using st ne nz2 by simp
    qed
  qed
qed


lemma slide_loop_inv:
  assumes "i \<le> length l" "slide_inv l sc0 i s"
  shows "\<exists>s'. efold (slide_step rtv l) (py_range (int i) (int (length l))) s = Inr s'
              \<and> slide_inv l sc0 (length l) s'"
  using assms
proof (induction "length l - i" arbitrary: i s)
  case 0
  then show ?case by (simp add: py_range_rec)
next
  case (Suc d)
  then have i: "i < length l" by simp
  obtain s1 where s1: "slide_step rtv l (int i) s = Inr s1" "slide_inv l sc0 (Suc i) s1"
    using slide_step_inv[OF i Suc.prems(2)] by blast
  have "d = length l - Suc i" using Suc.hyps(2) by simp
  from Suc.hyps(1)[OF this _ s1(2)] i
  obtain s' where "efold (slide_step rtv l) (py_range (int (Suc i)) (int (length l))) s1 = Inr s'"
      "slide_inv l sc0 (length l) s'" by auto
  moreover have "py_range (int i) (int (length l)) = int i # py_range (int (Suc i)) (int (length l))"
    using i by (subst py_range_rec) (simp add: add.commute)
  ultimately show ?case using s1 by simp
qed

lemma first_non_zero_loop_spec:
  assumes "a \<le> length l"
  shows "\<exists>k. first_non_zero_loop l (py_range (int a) (int (length l))) = Inr k \<and>
          ((k = - 1 \<and> (\<forall>j. a \<le> j \<and> j < length l \<longrightarrow> l ! j = 0)) \<or>
           (int a \<le> k \<and> k < int (length l) \<and> (\<forall>j. a \<le> j \<and> int j < k \<longrightarrow> l ! j = 0)))"
  using assms
proof (induction "length l - a" arbitrary: a)
  case 0
  then show ?case by (simp add: py_range_rec)
next
  case (Suc d)
  then have a: "a < length l" by simp
  have rng: "py_range (int a) (int (length l)) = int a # py_range (int (Suc a)) (int (length l))"
    using a by (subst py_range_rec) (simp add: add.commute)
  show ?case
  proof (cases "l ! a = 0")
    case False
    then show ?thesis using a rng by simp
  next
    case True
    have "d = length l - Suc a" using Suc.hyps(2) by simp
    from Suc.hyps(1)[OF this] a
    obtain k where k: "first_non_zero_loop l (py_range (int (Suc a)) (int (length l))) = Inr k"
      "(k = - 1 \<and> (\<forall>j. Suc a \<le> j \<and> j < length l \<longrightarrow> l ! j = 0)) \<or>
           (int (Suc a) \<le> k \<and> k < int (length l) \<and> (\<forall>j. Suc a \<le> j \<and> int j < k \<longrightarrow> l ! j = 0))"
      by auto
    have step: "\<And>j. a \<le> j \<Longrightarrow> j = a \<or> Suc a \<le> j" by auto
    have "first_non_zero_loop l (py_range (int a) (int (length l))) = Inr k"
      using rng a True k(1) by simp
    moreover have "(k = - 1 \<and> (\<forall>j. a \<le> j \<and> j < length l \<longrightarrow> l ! j = 0)) \<or>
           (int a \<le> k \<and> k < int (length l) \<and> (\<forall>j. a \<le> j \<and> int j < k \<longrightarrow> l ! j = 0))"
      using k(2)
    proof (elim disjE conjE)
      assume "k = - 1" and z: "\<forall>j. Suc a \<le> j \<and> j < length l \<longrightarrow> l ! j = 0"
      have "\<forall>j. a \<le> j \<and> j < length l \<longrightarrow> l ! j = 0"
        using z True step by blast
      then show ?thesis using \<open>k = - 1\<close> by blast
    next
      assume b: "int (Suc a) \<le> k" "k < int (length l)"
        and z: "\<forall>j. Suc a \<le> j \<and> int j < k \<longrightarrow> l ! j = 0"
      have "\<forall>j. a \<le> j \<and> int j < k \<longrightarrow> l ! j = 0"
        using z True step by blast
      moreover have "int a \<le> k" using b(1) by simp
      ultimately show ?thesis using b(2) by blast
    qed
    ultimately show ?thesis by blast
  qed
qed


lemma slide_loop_from_start:
  assumes ne: "l \<noteq> []"
  shows "\<exists>s. ebind (first_non_zero_index l 0) (\<lambda>start_index.
           efold (slide_step rtv l) (py_range start_index (int (length l)))
             \<lparr>new_list = map (\<lambda>_. 0) l, movement = map (\<lambda>_. 0) l,
                  new_index = 0, score_acc = sc, accessed = []\<rparr>) = Inr s
          \<and> slide_inv l sc (length l) s"
proof -
  define init where "init = \<lparr>new_list = map (\<lambda>_. 0::int) l, movement = map (\<lambda>_. 0::int) l,
                  new_index = 0::int, score_acc = sc, accessed = []\<rparr>"
  have len: "0 < length l" using ne by simp
  obtain k where k: "first_non_zero_index l 0 = Inr k"
     "(k = - 1 \<and> (\<forall>j. j < length l \<longrightarrow> l ! j = 0)) \<or>
      (0 \<le> k \<and> k < int (length l) \<and> (\<forall>j. int j < k \<longrightarrow> l ! j = 0))"
    using first_non_zero_loop_spec[of 0 l] by (auto simp add: first_non_zero_index_def)
  from k(2) have "\<exists>s. efold (slide_step rtv l) (py_range k (int (length l))) init = Inr s
          \<and> slide_inv l sc (length l) s"
  proof (elim disjE conjE)
    assume k1: "k = - 1" and z: "\<forall>j. j < length l \<longrightarrow> l ! j = 0"
    have allz: "\<forall>x\<in>set l. x = 0" using z by (auto simp add: in_set_conv_nth)
    have "nat (int (length l) - 1) < length l" using len by linarith
    then have "l ! nat (int (length l) - 1) = 0" using z by blast
    then have last: "py_get l (- 1) = Inr 0"
      using len by (simp add: py_get_def py_index_def Suc_le_eq)
    have rng: "py_range (- 1) (int (length l)) = (- 1) # py_range (int 0) (int (length l))"
      using len by (subst py_range_rec) simp
    have st: "slide_step rtv l (- 1) init = Inr (note_index (- 1) init)"
      using last by (simp add: slide_step_def)
    have "slide_inv l sc 0 (note_index (- 1) init)"
      using len allz z by (simp add: slide_inv_def note_index_def init_def)
    from slide_loop_inv[OF _ this, of rtv]
    show ?thesis using k1 rng st by simp
  next
    assume b: "0 \<le> k" "k < int (length l)" and z: "\<forall>j. int j < k \<longrightarrow> l ! j = 0"
    have "slide_inv l sc (nat k) init"
      using b z len by (auto simp add: slide_inv_def init_def)
    from slide_loop_inv[OF _ this, of rtv] b
    show ?thesis by simp
  qed
  then show ?thesis using k(1) by (simp add: init_def)
qed

lemma slide_run_inv:
  assumes "line \<noteq> []"
  shows "\<exists>s. slide_run rtv sc d line = Inr s \<and>
     slide_inv (if reverse_direction d then rev line else line) sc (length line) s"
proof (cases "reverse_direction d")
  case True
  have "rev line \<noteq> []" using assms by simp
  from slide_loop_from_start[OF this, of rtv sc] True
  show ?thesis by (simp add: slide_run_def Let_def)
next
  case False
  from slide_loop_from_start[OF assms, of rtv sc] False
  show ?thesis by (simp add: slide_run_def Let_def)
qed

lemma slide_inv_final:
  assumes "slide_inv l sc (length l) s" "\<forall>x\<in>set (movement s). x = 0"
  shows "new_list s = l \<and> score_acc s = sc"
proof -
  have len: "length (new_list s) = length l" "length (movement s) = length l"
    using assms(1) by (auto simp add: slide_inv_def)
  have "\<forall>k<length l. movement s ! k = 0" using assms(2) len by simp
  then have "(\<forall>k<length l. new_list s ! k = l ! k) \<and> score_acc s = sc"
    using assms(1) by (simp add: slide_inv_def)
  then show ?thesis using len by (simp add: list_eq_iff_nth_eq)
qed

lemma slide_helper_spec:
  assumes "line \<noteq> []"
  shows "\<exists>vals mv sc'. slide_helper rtv sc d line = Inr (vals, mv, sc') \<and>
     length vals = length line \<and> length mv = length line \<and>
     ((\<forall>x\<in>set mv. x = 0) \<longrightarrow> vals = line \<and> sc' = sc)"
proof -
  obtain s where s: "slide_run rtv sc d line = Inr s"
     "slide_inv (if reverse_direction d then rev line else line) sc (length line) s"
    using slide_run_inv[OF assms] by blast
  have len: "length (new_list s) = length line" "length (movement s) = length line"
    using s(2) by (auto simp add: slide_inv_def split: if_splits)
  show ?thesis
  proof (cases "reverse_direction d")
    case True
    have inv: "slide_inv (rev line) sc (length (rev line)) s" using s(2) True by simp
    have "(\<forall>x\<in>set (movement s). x = 0) \<longrightarrow> rev (new_list s) = line \<and> score_acc s = sc"
      using slide_inv_final[OF inv] by (auto simp add: rev_swap)
    then show ?thesis using s(1) True len by (simp add: slide_helper_def)
  next
    case False
    have inv: "slide_inv line sc (length line) s" using s(2) False by simp
    have "(\<forall>x\<in>set (movement s). x = 0) \<longrightarrow> new_list s = line \<and> score_acc s = sc"
      using slide_inv_final[OF inv] by auto
    then show ?thesis using s(1) False len by (simp add: slide_helper_def)
  qed
qed

section \<open>Subscripts of the line slide\<close>

text \<open>
  C10, where it fails: on the line [0] the first subscript the loop applies is -1, the
  value \<open>first_non_zero_index\<close> returns for a line of zeros; it reads the last
  element and raises nothing.
\<close>

theorem slide_run_negative_subscript:
  "slide_run 2 0 LEFT [0] =
     Inr \<lparr>new_list = [0], movement = [0], new_index = 0, score_acc = 0, accessed = [- 1, 0]\<rparr>"
  by (simp add: slide_eval Let_def)

text \<open>
  C10, amended. On every line of length \<open>n \<ge> 1\<close>, in every direction,
  \<open>_slide_helper\<close> raises no IndexError and its two results have length \<open>n\<close>. Every
  subscript it applies to \<open>l_copy\<close>, \<open>new_list\<close> or \<open>movement\<close> is valid for a list
  of length \<open>n\<close>, that is between \<open>-n\<close> and \<open>n - 1\<close>; the only negative one is -1,
  and it is used only when the line holds no non-zero element.
\<close>

theorem slide_helper_subscripts:
  assumes "line \<noteq> []"
  shows "(\<exists>s. slide_run rtv sc d line = Inr s \<and>
            length (new_list s) = length line \<and> length (movement s) = length line \<and>
            (\<forall>j\<in>set (accessed s). - int (length line) \<le> j \<and> j < int (length line)) \<and>
            (\<forall>j\<in>set (accessed s). j < 0 \<longrightarrow> j = - 1 \<and> (\<forall>x\<in>set line. x = 0)))
       \<and> (\<exists>vals mv sc'. slide_helper rtv sc d line = Inr (vals, mv, sc') \<and>
            length vals = length line \<and> length mv = length line)"
proof -
  obtain s where s: "slide_run rtv sc d line = Inr s"
     "slide_inv (if reverse_direction d then rev line else line) sc (length line) s"
    using slide_run_inv[OF assms] by blast
  have len: "0 < length line" using assms by simp
  have a: "length (new_list s) = length line" "length (movement s) = length line"
    using s(2) by (auto simp add: slide_inv_def split: if_splits)
  have b: "\<forall>j\<in>set (accessed s). - 1 \<le> j \<and> j < int (length line)"
    using s(2) by (auto simp add: slide_inv_def split: if_splits)
  have c: "- 1 \<in> set (accessed s) \<longrightarrow> (\<forall>x\<in>set line. x = 0)"
    using s(2) by (auto simp add: slide_inv_def split: if_splits)
  have b': "\<forall>j\<in>set (accessed s). - int (length line) \<le> j \<and> j < int (length line)"
  proof
    fix j assume "j \<in> set (accessed s)"
    then have "- 1 \<le> j \<and> j < int (length line)" using b by blast
    then show "- int (length line) \<le> j \<and> j < int (length line)" using len by linarith
  qed
  have c': "\<forall>j\<in>set (accessed s). j < 0 \<longrightarrow> j = - 1 \<and> (\<forall>x\<in>set line. x = 0)"
  proof (intro ballI impI)
    fix j assume j: "j \<in> set (accessed s)" "j < 0"
    then have "- 1 \<le> j" using b by blast
    then have "j = - 1" using j(2) by linarith
    then show "j = - 1 \<and> (\<forall>x\<in>set line. x = 0)" using c j(1) by blast
  qed
  show ?thesis
    using s(1) a b' c' slide_helper_spec[OF assms, of rtv sc d] by blast
qed

theorem slide_helper_subscripts_witness:
  "[2, 2, 4, 2] \<noteq> ([] :: int list) \<and>
   (\<exists>s. slide_run 2 0 RIGHT [2, 2, 4, 2] = Inr s \<and>
            length (new_list s) = 4 \<and> length (movement s) = 4 \<and>
            (\<forall>j\<in>set (accessed s). - 4 \<le> j \<and> j < 4))"
  using slide_helper_subscripts[of "[2, 2, 4, 2]" 2 0 RIGHT] by auto


section \<open>Whether the game can be played\<close>

lemma efold_inv:
  assumes "P s" and "\<And>x s. x \<in> set xs \<Longrightarrow> P s \<Longrightarrow> \<exists>s'. body x s = Inr s' \<and> P s'"
  shows "\<exists>s'. efold body xs s = Inr s' \<and> P s'"
  using assms
proof (induction xs arbitrary: s)
  case Nil
  then show ?case by simp
next
  case (Cons x xs)
  obtain s1 where s1: "body x s = Inr s1" "P s1"
    using Cons.prems(2)[of x s] Cons.prems(1) by auto
  have "\<exists>s'. efold body xs s1 = Inr s' \<and> P s'"
    using Cons.IH[OF s1(2)] Cons.prems(2) by simp
  then show ?case using s1 by simp
qed

lemma set_grid_cells: "set (grid_cells n) = {(r, c). r < nat n \<and> c < nat n}"
  by (auto simp add: grid_cells_def range_nat_def)

lemma square_grid_on_board:
  "square_grid n g \<Longrightarrow> on_board g c r \<longleftrightarrow> r < n \<and> c < n"
  by (auto simp add: square_grid_def on_board_def list_all_length)

lemma mem_adjacent_cells:
  "(c', r') \<in> set (adjacent_cells c r) \<longleftrightarrow> adjacent c r c' r'"
  by (auto simp add: adjacent_cells_def adjacent_def)

lemma ex_grid_get_adjacent:
  assumes "square_grid n g"
  shows "list_ex P (grid_get_adjacent g c r) \<longleftrightarrow>
         (\<exists>r'<n. \<exists>c'<n. adjacent c r c' r' \<and> P (g ! r' ! c'))"
proof -
  have "list_ex P (grid_get_adjacent g c r) \<longleftrightarrow>
        (\<exists>c' r'. (c', r') \<in> set (adjacent_cells c r) \<and> on_board g c' r' \<and> P (g ! r' ! c'))"
    by (fastforce simp add: grid_get_adjacent_def list_ex_iff)
  also have "\<dots> \<longleftrightarrow> (\<exists>c' r'. adjacent c r c' r' \<and> r' < n \<and> c' < n \<and> P (g ! r' ! c'))"
    by (simp add: square_grid_on_board[OF assms] mem_adjacent_cells)
  also have "\<dots> \<longleftrightarrow> (\<exists>r'<n. \<exists>c'<n. adjacent c r c' r' \<and> P (g ! r' ! c'))"
    by blast
  finally show ?thesis .
qed

lemma can_play_cells_spec:
  assumes "\<forall>p\<in>set ps. on_board g (snd p) (fst p)"
  shows "can_play_cells g ps =
     Inr (\<exists>p\<in>set ps. tile_value (g ! fst p ! snd p) = 0 \<or>
            list_ex (\<lambda>neighbor. tile_value neighbor = tile_value (g ! fst p ! snd p))
              (grid_get_adjacent g (snd p) (fst p)))"
  using assms
proof (induction ps)
  case Nil
  then show ?case by simp
next
  case (Cons p ps)
  obtain r c where p: "p = (r, c)" by (cases p)
  have ob: "on_board g c r" using Cons.prems p by simp
  show ?case using Cons p ob by (simp add: grid_get_def)
qed

text \<open>
  C5. On every game whose grid is square of the configured size, \<open>can_play\<close> returns
  true exactly when some cell holds 0 or some cell has a 4-directionally adjacent cell
  on the board with the same value. So a full grid with no adjacent equal pair gives
  false, and a full grid with an adjacent equal pair gives true.
\<close>

theorem can_play_iff:
  assumes "wf_game gm"
  shows "can_play gm =
     Inr (\<exists>r<nat (grid_size (config gm)). \<exists>c<nat (grid_size (config gm)).
            tile_value (grid gm ! r ! c) = 0 \<or>
            (\<exists>r'<nat (grid_size (config gm)). \<exists>c'<nat (grid_size (config gm)).
               adjacent c r c' r' \<and>
               tile_value (grid gm ! r' ! c') = tile_value (grid gm ! r ! c)))"
proof -
  define n where "n = nat (grid_size (config gm))"
  have sq: "square_grid n (grid gm)" using assms by (simp add: wf_game_def n_def)
  have ob: "\<forall>p\<in>set (grid_cells (grid_size (config gm))). on_board (grid gm) (snd p) (fst p)"
    using square_grid_on_board[OF sq] by (auto simp add: set_grid_cells n_def)
  have "can_play gm = Inr (\<exists>p\<in>set (grid_cells (grid_size (config gm))).
          tile_value (grid gm ! fst p ! snd p) = 0 \<or>
            (\<exists>r'<n. \<exists>c'<n. adjacent (snd p) (fst p) c' r' \<and>
               tile_value (grid gm ! r' ! c') = tile_value (grid gm ! fst p ! snd p)))"
    unfolding can_play_def can_play_cells_spec[OF ob] ex_grid_get_adjacent[OF sq] ..
  then show ?thesis
    unfolding n_def[symmetric] by (simp add: set_grid_cells n_def[symmetric] Bex_def)
qed


lemmas grid_eval =
  grid_cells_def range_nat_def upt_rec grid_get_def grid_set_def on_board_def list_nth_def
  grid_get_adjacent_def adjacent_cells_def Tile_init_def grid_get_col_def grid_get_row_def
  game_with_tiles_def default_config_def wf_game_def square_grid_def

theorem can_play_iff_witness:
  "wf_game (game_with_tiles default_config [[1, 2, 3, 4], [8, 7, 6, 5], [9, 10, 11, 12], [16, 15, 14, 13]])
   \<and> can_play (game_with_tiles default_config
         [[1, 2, 3, 4], [8, 7, 6, 5], [9, 10, 11, 12], [16, 15, 14, 13]]) = Inr False
   \<and> wf_game (game_with_tiles default_config [[2, 2, 2, 2], [2, 2, 2, 2], [2, 2, 2, 2], [2, 2, 2, 2]])
   \<and> can_play (game_with_tiles default_config
         [[2, 2, 2, 2], [2, 2, 2, 2], [2, 2, 2, 2], [2, 2, 2, 2]]) = Inr True"
proof -
  let ?A = "game_with_tiles default_config [[1, 2, 3, 4], [8, 7, 6, 5], [9, 10, 11, 12], [16, 15, 14, 13]]"
  let ?B = "game_with_tiles default_config [[2, 2, 2, 2], [2, 2, 2, 2], [2, 2, 2, 2], [2, 2, 2, 2]]"
  have wfA: "wf_game ?A" by (simp add: grid_eval)
  have wfB: "wf_game ?B" by (simp add: grid_eval)
  have A: "can_play ?A = Inr False" by (simp add: can_play_def grid_eval)
  have "adjacent 0 0 1 0" by (simp add: adjacent_def)
  then have "\<exists>r<nat (grid_size (config ?B)). \<exists>c<nat (grid_size (config ?B)).
            tile_value (grid ?B ! r ! c) = 0 \<or>
            (\<exists>r'<nat (grid_size (config ?B)). \<exists>c'<nat (grid_size (config ?B)).
               adjacent c r c' r' \<and>
               tile_value (grid ?B ! r' ! c') = tile_value (grid ?B ! r ! c))"
    by (intro exI[of _ 0] conjI disjI2 exI[of _ 1]) (simp_all add: grid_eval)
  then have B: "can_play ?B = Inr True" using can_play_iff[OF wfB] by simp
  show ?thesis using wfA wfB A B by simp
qed


section \<open>Writing the grid and sliding every line\<close>

lemma square_grid_nth:
  "square_grid n g \<Longrightarrow> r < n \<Longrightarrow> length (g ! r) = n"
  by (simp add: square_grid_def list_all_length)

lemma square_grid_length: "square_grid n g \<Longrightarrow> length g = n"
  by (simp add: square_grid_def)

lemma square_gridI:
  "length g = n \<Longrightarrow> (\<And>r. r < n \<Longrightarrow> length (g ! r) = n) \<Longrightarrow> square_grid n g"
  by (simp add: square_grid_def list_all_length)

lemma square_grid_eqI:
  assumes "square_grid n g" "square_grid n h" "\<And>r c. r < n \<Longrightarrow> c < n \<Longrightarrow> g ! r ! c = h ! r ! c"
  shows "g = h"
proof (rule nth_equalityI)
  show "length g = length h" using assms by (simp add: square_grid_length)
next
  fix r assume "r < length g"
  then have r: "r < n" using assms(1) by (simp add: square_grid_length)
  show "g ! r = h ! r"
    using assms r by (intro nth_equalityI) (simp_all add: square_grid_nth)
qed

lemma grid_set_square:
  assumes "square_grid n g" "r < n" "c < n"
  shows "grid_set g c r t = Inr (g[r := (g ! r)[c := t]])"
    and "square_grid n (g[r := (g ! r)[c := t]])"
proof -
  show "grid_set g c r t = Inr (g[r := (g ! r)[c := t]])"
    using assms by (simp add: grid_set_def square_grid_on_board)
  show "square_grid n (g[r := (g ! r)[c := t]])"
    using assms by (auto simp add: square_grid_def list_all_length nth_list_update)
qed

lemma set_tiles_loop:
  assumes "\<forall>p\<in>set ps. fst p < n \<and> snd p < n" "square_grid n g"
    "n \<le> length tiles" "\<forall>r<n. n \<le> length (tiles ! r)"
  shows "\<exists>g'. efold (\<lambda>(r, c) g. ebind (list_nth tiles r) (\<lambda>row.
             ebind (list_nth row c) (\<lambda>t. grid_set g c r t))) ps g = Inr g'
          \<and> square_grid n g'
          \<and> (\<forall>r<n. \<forall>c<n. g' ! r ! c = (if (r, c) \<in> set ps then tiles ! r ! c else g ! r ! c))"
  using assms(1,2)
proof (induction ps arbitrary: g)
  case Nil
  then show ?case by simp
next
  case (Cons p ps)
  obtain r c where p: "p = (r, c)" by (cases p)
  have rc: "r < n" "c < n" using Cons.prems(1) p by auto
  let ?g1 = "g[r := (g ! r)[c := tiles ! r ! c]]"
  have g1: "grid_set g c r (tiles ! r ! c) = Inr ?g1" "square_grid n ?g1"
    using grid_set_square[OF Cons.prems(2) rc] by auto
  have rest: "\<forall>p\<in>set ps. fst p < n \<and> snd p < n" using Cons.prems(1) by simp
  from Cons.IH[OF rest g1(2)]
  obtain g' where g': "efold (\<lambda>(r, c) g. ebind (list_nth tiles r) (\<lambda>row.
             ebind (list_nth row c) (\<lambda>t. grid_set g c r t))) ps ?g1 = Inr g'"
     "square_grid n g'"
     "\<forall>r'<n. \<forall>c'<n. g' ! r' ! c' = (if (r', c') \<in> set ps then tiles ! r' ! c' else ?g1 ! r' ! c')"
    by blast
  have len: "r < length tiles" "c < length (tiles ! r)" using rc assms(3,4) by auto
  have step: "efold (\<lambda>(r, c) g. ebind (list_nth tiles r) (\<lambda>row.
             ebind (list_nth row c) (\<lambda>t. grid_set g c r t))) (p # ps) g = Inr g'"
    using p len g1(1) g'(1) by (simp add: list_nth_def)
  have lg: "length g = n" "\<And>k. k < n \<Longrightarrow> length (g ! k) = n"
    using Cons.prems(2) by (simp_all add: square_grid_length square_grid_nth)
  have "\<forall>r'<n. \<forall>c'<n. g' ! r' ! c' =
       (if (r', c') \<in> set (p # ps) then tiles ! r' ! c' else g ! r' ! c')"
    using g'(3) p rc lg by (auto simp add: nth_list_update)
  then show ?case using step g'(2) by blast
qed

lemma set_tiles_ok:
  assumes sq: "square_grid (nat (grid_size (config gm))) (grid gm)"
    and big: "nat (grid_size (config gm)) \<le> length tiles"
      "\<forall>r<nat (grid_size (config gm)). nat (grid_size (config gm)) \<le> length (tiles ! r)"
  shows "set_tiles gm tiles =
     Inr (gm\<lparr>grid := map (take (nat (grid_size (config gm))))
                       (take (nat (grid_size (config gm))) tiles)\<rparr>)"
proof -
  define n where "n = nat (grid_size (config gm))"
  have cells: "\<forall>p\<in>set (grid_cells (grid_size (config gm))). fst p < n \<and> snd p < n"
    by (auto simp add: set_grid_cells n_def)
  from set_tiles_loop[OF cells sq[folded n_def] big[folded n_def]]
  obtain g' where g': "efold (\<lambda>(r, c) g. ebind (list_nth tiles r) (\<lambda>row.
             ebind (list_nth row c) (\<lambda>t. grid_set g c r t)))
               (grid_cells (grid_size (config gm))) (grid gm) = Inr g'"
     "square_grid n g'"
     "\<forall>r<n. \<forall>c<n. g' ! r ! c = (if (r, c) \<in> set (grid_cells (grid_size (config gm)))
          then tiles ! r ! c else grid gm ! r ! c)"
    by blast
  have blk: "square_grid n (map (take n) (take n tiles))"
    using big by (intro square_gridI) (simp_all add: n_def)
  have "g' = map (take n) (take n tiles)"
  proof (rule square_grid_eqI[OF g'(2) blk])
    fix r c assume "r < n" "c < n"
    then show "g' ! r ! c = map (take n) (take n tiles) ! r ! c"
      using g'(3) big by (simp add: set_grid_cells n_def)
  qed
  then show ?thesis using g'(1) by (simp add: set_tiles_def n_def)
qed


lemma fold_min_const: "\<forall>x\<in>set ls. x = m \<Longrightarrow> fold min ls m = (m::nat)"
  by (induction ls) simp_all

lemma transpose_columns_rect:
  assumes "xss \<noteq> []" "\<forall>xs\<in>set xss. length xs = m"
  shows "transpose_columns xss = map (\<lambda>k. map (\<lambda>line. line ! k) xss) [0..<m]"
proof -
  obtain first others where x: "xss = first # others" using assms(1) by (cases xss) auto
  have "fold min (map length others) (length first) = m"
    using assms(2) x fold_min_const[of "map length others" m] by simp
  then show ?thesis using x by (simp add: transpose_columns_def)
qed

lemma transpose_columns_square:
  assumes "square_grid n xss"
  shows "transpose_columns xss = map (\<lambda>k. map (\<lambda>line. line ! k) xss) [0..<n]"
proof (cases "xss = []")
  case True
  then show ?thesis using assms by (simp add: transpose_columns_def square_grid_def)
next
  case False
  have "\<forall>xs\<in>set xss. length xs = n" using assms by (simp add: square_grid_def list_all_iff)
  from transpose_columns_rect[OF False this] show ?thesis .
qed

lemma transpose_columns_nth:
  assumes "square_grid n xss" "r < n" "c < n"
  shows "transpose_columns xss ! r ! c = xss ! c ! r"
  using assms by (simp add: transpose_columns_square square_grid_length)

lemma square_transpose_columns:
  assumes "square_grid n xss"
  shows "square_grid n (transpose_columns xss)"
  using assms by (intro square_gridI) (simp_all add: transpose_columns_square square_grid_length)

lemma slide_lines_spec:
  assumes "\<forall>k\<in>set ks. get_line (grid gm) k = Inr (line_of k) \<and> line_of k \<noteq> []"
  shows "\<exists>vs ms sc'.
     efold (slide_line d get_line) ks (vals, movs, gm)
       = Inr (vals @ vs, movs @ ms, gm\<lparr>score := sc'\<rparr>) \<and>
     length vs = length ks \<and> length ms = length ks \<and>
     (\<forall>j<length ks. length (vs ! j) = length (line_of (ks ! j)) \<and>
                     length (ms ! j) = length (line_of (ks ! j))) \<and>
     ((\<forall>m\<in>set ms. \<forall>x\<in>set m. x = 0) \<longrightarrow>
        vs = map (\<lambda>k. map tile_value (line_of k)) ks \<and> sc' = score gm \<and>
        (\<forall>k\<in>set ks. slide_helper (root_tile_value (config gm)) (score gm) d
            (map tile_value (line_of k)) = Inr (map tile_value (line_of k), replicate (length (line_of k)) 0, score gm)))"
  using assms
proof (induction ks arbitrary: vals movs gm)
  case Nil
  have "gm\<lparr>score := score gm\<rparr> = gm" by simp
  then show ?case by (metis append_Nil2 efold.simps(1) length_0_conv list.simps(8) empty_iff
      list.set(1) not_less_zero)
next
  case (Cons k ks)
  have k: "get_line (grid gm) k = Inr (line_of k)" "line_of k \<noteq> []" using Cons.prems by auto
  let ?line = "map tile_value (line_of k)"
  let ?rtv = "root_tile_value (config gm)"
  have ne: "?line \<noteq> []" using k(2) by simp
  from slide_helper_spec[OF ne, of ?rtv "score gm" d]
  obtain v m sc1 where h: "slide_helper ?rtv (score gm) d ?line = Inr (v, m, sc1)"
    "length v = length ?line" "length m = length ?line"
    "(\<forall>x\<in>set m. x = 0) \<longrightarrow> v = ?line \<and> sc1 = score gm"
    by blast
  let ?gm1 = "gm\<lparr>score := sc1\<rparr>"
  have step: "slide_line d get_line k (vals, movs, gm) = Inr (vals @ [v], movs @ [m], ?gm1)"
    using k(1) h(1) by (simp add: slide_line_def)
  have rest: "\<forall>k\<in>set ks. get_line (grid ?gm1) k = Inr (line_of k) \<and> line_of k \<noteq> []"
    using Cons.prems by simp
  from Cons.IH[OF rest, of "vals @ [v]" "movs @ [m]"]
  obtain vs ms sc' where r:
    "efold (slide_line d get_line) ks (vals @ [v], movs @ [m], ?gm1)
       = Inr ((vals @ [v]) @ vs, (movs @ [m]) @ ms, ?gm1\<lparr>score := sc'\<rparr>)"
    "length vs = length ks" "length ms = length ks"
    "\<forall>j<length ks. length (vs ! j) = length (line_of (ks ! j)) \<and>
                     length (ms ! j) = length (line_of (ks ! j))"
    "(\<forall>m\<in>set ms. \<forall>x\<in>set m. x = 0) \<longrightarrow>
        vs = map (\<lambda>k. map tile_value (line_of k)) ks \<and> sc' = score ?gm1 \<and>
        (\<forall>k\<in>set ks. slide_helper (root_tile_value (config ?gm1)) (score ?gm1) d
            (map tile_value (line_of k)) = Inr (map tile_value (line_of k), replicate (length (line_of k)) 0, score ?gm1))"
    by blast
  have e: "efold (slide_line d get_line) (k # ks) (vals, movs, gm)
       = Inr (vals @ (v # vs), movs @ (m # ms), gm\<lparr>score := sc'\<rparr>)"
    using step r(1) by simp
  have l1: "length (v # vs) = length (k # ks)" "length (m # ms) = length (k # ks)"
    using r(2,3) by simp_all
  have l2: "\<forall>j<length (k # ks). length ((v # vs) ! j) = length (line_of ((k # ks) ! j)) \<and>
                     length ((m # ms) ! j) = length (line_of ((k # ks) ! j))"
    using r(4) h(2,3) by (auto simp add: nth_Cons split: nat.splits)
  have z: "(\<forall>m'\<in>set (m # ms). \<forall>x\<in>set m'. x = 0) \<longrightarrow>
        v # vs = map (\<lambda>k. map tile_value (line_of k)) (k # ks) \<and> sc' = score gm \<and>
        (\<forall>k'\<in>set (k # ks). slide_helper ?rtv (score gm) d
            (map tile_value (line_of k')) = Inr (map tile_value (line_of k'), replicate (length (line_of k')) 0, score gm))"
  proof
    assume az: "\<forall>m'\<in>set (m # ms). \<forall>x\<in>set m'. x = 0"
    then have mz: "\<forall>x\<in>set m. x = 0" and msz: "\<forall>m\<in>set ms. \<forall>x\<in>set m. x = 0" by auto
    have v: "v = ?line" "sc1 = score gm" using h(4) mz by auto
    have m: "m = replicate (length (line_of k)) 0"
      using mz h(3) by (intro replicate_eqI) auto
    have gm1: "?gm1 = gm" using v(2) by simp
    show "v # vs = map (\<lambda>k. map tile_value (line_of k)) (k # ks) \<and> sc' = score gm \<and>
        (\<forall>k'\<in>set (k # ks). slide_helper ?rtv (score gm) d
            (map tile_value (line_of k')) = Inr (map tile_value (line_of k'), replicate (length (line_of k')) 0, score gm))"
      using r(5) msz v m h(1) gm1 by auto
  qed
  have "efold (slide_line d get_line) (k # ks) (vals, movs, gm)
       = Inr (vals @ (v # vs), movs @ (m # ms), gm\<lparr>score := sc'\<rparr>) \<and>
     length (v # vs) = length (k # ks) \<and> length (m # ms) = length (k # ks) \<and>
     (\<forall>j<length (k # ks). length ((v # vs) ! j) = length (line_of ((k # ks) ! j)) \<and>
                     length ((m # ms) ! j) = length (line_of ((k # ks) ! j))) \<and>
     ((\<forall>m'\<in>set (m # ms). \<forall>x\<in>set m'. x = 0) \<longrightarrow>
        v # vs = map (\<lambda>k. map tile_value (line_of k)) (k # ks) \<and> sc' = score gm \<and>
        (\<forall>k'\<in>set (k # ks). slide_helper ?rtv (score gm) d
            (map tile_value (line_of k')) = Inr (map tile_value (line_of k'), replicate (length (line_of k')) 0, score gm)))"
    using e l1 l2 z by (intro conjI)
  then show ?case by (intro exI)
qed

lemma slide_lines_fixed:
  assumes "\<forall>k\<in>set ks. get_line (grid gm) k = Inr (line_of k) \<and>
      slide_helper (root_tile_value (config gm)) (score gm) d (map tile_value (line_of k))
        = Inr (map tile_value (line_of k), replicate (length (line_of k)) 0, score gm)"
  shows "efold (slide_line d get_line) ks (vals, movs, gm)
       = Inr (vals @ map (\<lambda>k. map tile_value (line_of k)) ks,
              movs @ map (\<lambda>k. replicate (length (line_of k)) 0) ks, gm)"
  using assms
proof (induction ks arbitrary: vals movs)
  case Nil
  then show ?case by simp
next
  case (Cons k ks)
  have "gm\<lparr>score := score gm\<rparr> = gm" by simp
  then have "slide_line d get_line k (vals, movs, gm)
     = Inr (vals @ [map tile_value (line_of k)], movs @ [replicate (length (line_of k)) 0], gm)"
    using Cons.prems by (simp add: slide_line_def)
  moreover have "efold (slide_line d get_line) ks
        (vals @ [map tile_value (line_of k)], movs @ [replicate (length (line_of k)) 0], gm)
     = Inr ((vals @ [map tile_value (line_of k)]) @ map (\<lambda>k. map tile_value (line_of k)) ks,
              (movs @ [replicate (length (line_of k)) 0]) @ map (\<lambda>k. replicate (length (line_of k)) 0) ks, gm)"
    using Cons.IH Cons.prems by simp
  ultimately show ?case by simp
qed


lemma take_square: "square_grid n xss \<Longrightarrow> map (take n) (take n xss) = xss"
  by (simp add: square_grid_def list_all_iff map_idI)

lemma set_tiles_square:
  assumes "n = nat (grid_size (config gm))" "square_grid n (grid gm)" "square_grid n tiles"
  shows "set_tiles gm tiles = Inr (gm\<lparr>grid := tiles\<rparr>)"
proof -
  have sq: "square_grid (nat (grid_size (config gm))) (grid gm)" using assms by simp
  have big: "nat (grid_size (config gm)) \<le> length tiles"
      "\<forall>r<nat (grid_size (config gm)). nat (grid_size (config gm)) \<le> length (tiles ! r)"
    using assms by (simp_all add: square_grid_length square_grid_nth)
  show ?thesis
    using set_tiles_ok[OF sq big] assms by (simp add: take_square)
qed

lemma all_zero_iff: "all_zero mm \<longleftrightarrow> (\<forall>m\<in>set mm. \<forall>x\<in>set m. x = 0)"
  by (simp add: all_zero_def list_all_iff)

lemma all_zero_square:
  assumes "square_grid n mm"
  shows "all_zero mm \<longleftrightarrow> (\<forall>r<n. \<forall>c<n. mm ! r ! c = 0)"
proof -
  have len: "length mm = n" "\<And>r. r < n \<Longrightarrow> length (mm ! r) = n"
    using assms by (simp_all add: square_grid_length square_grid_nth)
  show ?thesis
    unfolding all_zero_def list_all_length using len by auto
qed

lemma square_map_map: "square_grid n g \<Longrightarrow> square_grid n (map (map f) g)"
  by (simp add: square_grid_def list_all_iff)

lemma tile_value_Tile_init: "map (map tile_value) (map (map Tile_init) vs) = vs"
  by (simp add: Tile_init_def comp_def)

lemma slide_tiles_core:
  fixes get_line :: "Grid \<Rightarrow> nat \<Rightarrow> error + Tile list"
    and post :: "int list list \<Rightarrow> int list list"
  assumes n: "n = nat (grid_size (config gm))"
    and sq: "square_grid n (grid gm)"
    and a: "\<And>g k. square_grid n g \<Longrightarrow> k < n \<Longrightarrow>
              get_line g k = Inr (L g k) \<and> length (L g k) = n"
    and b: "\<And>xss. square_grid n xss \<Longrightarrow> square_grid n (post xss)"
    and c: "\<And>g. square_grid n g \<Longrightarrow>
              post (map (\<lambda>k. map tile_value (L g k)) [0..<n]) = map (map tile_value) g"
    and d: "\<And>xss. square_grid n xss \<Longrightarrow> all_zero (post xss) \<Longrightarrow> all_zero xss"
    and e: "\<And>g g' k. square_grid n g \<Longrightarrow> square_grid n g' \<Longrightarrow> k < n \<Longrightarrow>
              map (map tile_value) g = map (map tile_value) g' \<Longrightarrow>
              map tile_value (L g k) = map tile_value (L g' k)"
    and run: "\<And>gm'. config gm' = config gm \<Longrightarrow> slide_tiles gm' dir =
        ebind (efold (slide_line dir get_line) [0..<n] ([], [], gm')) (\<lambda>(vs, ms, gm2).
          ebind (set_tiles gm2 (map (map Tile_init) (post vs))) (\<lambda>gm3.
            Inr (gm3\<lparr>movement_matrix := post ms\<rparr>)))"
  shows "\<exists>gm1. slide_tiles gm dir = Inr gm1 \<and> wf_game gm1 \<and>
          (all_zero (movement_matrix gm1) \<longrightarrow>
             map (map tile_value) (grid gm1) = map (map tile_value) (grid gm) \<and>
             score gm1 = score gm \<and> slide_tiles gm1 dir = Inr gm1)"
proof -
  let ?g = "grid gm"
  let ?rtv = "root_tile_value (config gm)"
  have lines: "\<forall>k\<in>set [0..<n]. get_line ?g k = Inr (L ?g k) \<and> L ?g k \<noteq> []"
    using a[OF sq] by fastforce
  from slide_lines_spec[where ks="[0..<n]" and get_line=get_line and gm=gm
      and line_of="L ?g" and d=dir and vals="[]" and movs="[]", OF lines]
  obtain vs ms sc' where r0:
    "efold (slide_line dir get_line) [0..<n] ([], [], gm)
       = Inr ([] @ vs, [] @ ms, gm\<lparr>score := sc'\<rparr>) \<and>
     length vs = length [0..<n] \<and> length ms = length [0..<n] \<and>
     (\<forall>j<length [0..<n]. length (vs ! j) = length (L ?g ([0..<n] ! j)) \<and>
                     length (ms ! j) = length (L ?g ([0..<n] ! j))) \<and>
     ((\<forall>m\<in>set ms. \<forall>x\<in>set m. x = 0) \<longrightarrow>
        vs = map (\<lambda>k. map tile_value (L ?g k)) [0..<n] \<and> sc' = score gm \<and>
        (\<forall>k\<in>set [0..<n]. slide_helper ?rtv (score gm) dir
            (map tile_value (L ?g k)) = Inr (map tile_value (L ?g k), replicate (length (L ?g k)) 0, score gm)))"
    by blast
  have r: "efold (slide_line dir get_line) [0..<n] ([], [], gm) = Inr (vs, ms, gm\<lparr>score := sc'\<rparr>)"
    "length vs = n" "length ms = n"
    "\<forall>j<n. length (vs ! j) = length (L ?g j) \<and> length (ms ! j) = length (L ?g j)"
    "(\<forall>m\<in>set ms. \<forall>x\<in>set m. x = 0) \<longrightarrow>
        vs = map (\<lambda>k. map tile_value (L ?g k)) [0..<n] \<and> sc' = score gm \<and>
        (\<forall>k\<in>set [0..<n]. slide_helper ?rtv (score gm) dir
            (map tile_value (L ?g k)) = Inr (map tile_value (L ?g k), replicate (length (L ?g k)) 0, score gm))"
    using r0 by simp_all
  have sqv: "square_grid n vs" and sqm: "square_grid n ms"
    using r(2,3,4) a[OF sq] by (auto intro!: square_gridI)
  have sqpv: "square_grid n (map (map Tile_init) (post vs))"
    using b[OF sqv] by (rule square_map_map)
  let ?gm1 = "gm\<lparr>score := sc', grid := map (map Tile_init) (post vs),
                 movement_matrix := post ms\<rparr>"
  have st: "set_tiles (gm\<lparr>score := sc'\<rparr>) (map (map Tile_init) (post vs))
      = Inr (gm\<lparr>score := sc', grid := map (map Tile_init) (post vs)\<rparr>)"
    using set_tiles_square[of n "gm\<lparr>score := sc'\<rparr>" "map (map Tile_init) (post vs)"]
      sq n sqpv by simp
  have res: "slide_tiles gm dir = Inr ?gm1"
    using run[of gm] r(1) st by simp
  have wf1: "wf_game ?gm1" using sqpv n by (simp add: wf_game_def)
  have z: "map (map tile_value) (grid ?gm1) = map (map tile_value) (grid gm) \<and>
             score ?gm1 = score gm \<and> slide_tiles ?gm1 dir = Inr ?gm1"
    if az: "all_zero (movement_matrix ?gm1)"
  proof -
    have "all_zero ms" using d[OF sqm] az by simp
    then have mz: "\<forall>m\<in>set ms. \<forall>x\<in>set m. x = 0" by (simp add: all_zero_iff)
    have vs: "vs = map (\<lambda>k. map tile_value (L ?g k)) [0..<n]" and sc: "sc' = score gm"
      and F: "\<forall>k\<in>set [0..<n]. slide_helper ?rtv (score gm) dir
            (map tile_value (L ?g k)) = Inr (map tile_value (L ?g k), replicate (length (L ?g k)) 0, score gm)"
      using r(5) mz by auto
    have pv: "post vs = map (map tile_value) ?g" using c[OF sq] vs by simp
    have vals: "map (map tile_value) (grid ?gm1) = map (map tile_value) (grid gm)"
      using pv tile_value_Tile_init[of "post vs"] by simp
    have gm_same: "gm\<lparr>score := sc'\<rparr> = gm" using sc by simp
    have fixed0: "\<forall>k\<in>set [0..<n]. get_line ?g k = Inr (L ?g k) \<and>
      slide_helper ?rtv (score gm) dir (map tile_value (L ?g k))
        = Inr (map tile_value (L ?g k), replicate (length (L ?g k)) 0, score gm)"
      using lines F by simp
    have ms: "ms = map (\<lambda>k. replicate (length (L ?g k)) 0) [0..<n]"
      using slide_lines_fixed[where ks="[0..<n]" and get_line=get_line and gm=gm
          and line_of="L ?g" and d=dir and vals="[]" and movs="[]", OF fixed0] r(1) gm_same
      by simp
    let ?g1 = "grid ?gm1"
    have sq1: "square_grid n ?g1" using sqpv by simp
    have samevals: "\<And>k. k < n \<Longrightarrow> map tile_value (L ?g1 k) = map tile_value (L ?g k)"
      using e[OF sq1 sq] vals by simp
    have lens: "\<And>k. k < n \<Longrightarrow> length (L ?g1 k) = length (L ?g k)"
      using a[OF sq1] a[OF sq] by simp
    have fixed1: "\<forall>k\<in>set [0..<n]. get_line (grid ?gm1) k = Inr (L ?g1 k) \<and>
      slide_helper (root_tile_value (config ?gm1)) (score ?gm1) dir (map tile_value (L ?g1 k))
        = Inr (map tile_value (L ?g1 k), replicate (length (L ?g1 k)) 0, score ?gm1)"
      using a[OF sq1] F samevals lens sc by simp
    have run1: "efold (slide_line dir get_line) [0..<n] ([], [], ?gm1) = Inr (vs, ms, ?gm1)"
      using slide_lines_fixed[where ks="[0..<n]" and get_line=get_line and gm="?gm1"
          and line_of="L ?g1" and d=dir and vals="[]" and movs="[]", OF fixed1]
        vs ms samevals lens
      by (simp cong: map_cong)
    have st1: "set_tiles ?gm1 (map (map Tile_init) (post vs)) = Inr ?gm1"
      using set_tiles_square[of n ?gm1 "map (map Tile_init) (post vs)"] sq1 n sqpv
      by simp
    have "slide_tiles ?gm1 dir = Inr ?gm1"
      using run[of ?gm1] run1 st1 by simp
    then show ?thesis using vals sc by simp
  qed
  show ?thesis using res wf1 z by blast
qed


lemma map_nth_upt: "length xs = n \<Longrightarrow> map (\<lambda>k. f (xs ! k)) [0..<n] = map f xs"
  by (auto intro: nth_equalityI)

lemma slide_tiles_rows:
  assumes "\<not> (dir = UP \<or> dir = DOWN)" "wf_game gm"
  shows "\<exists>gm1. slide_tiles gm dir = Inr gm1 \<and> wf_game gm1 \<and>
          (all_zero (movement_matrix gm1) \<longrightarrow>
             map (map tile_value) (grid gm1) = map (map tile_value) (grid gm) \<and>
             score gm1 = score gm \<and> slide_tiles gm1 dir = Inr gm1)"
proof (rule slide_tiles_core[where n="nat (grid_size (config gm))" and get_line=grid_get_row
      and L="\<lambda>g k. g ! k" and post="\<lambda>xss. xss"])
  let ?n = "nat (grid_size (config gm))"
  show "?n = nat (grid_size (config gm))" by simp
  show "square_grid ?n (grid gm)" using assms(2) by (simp add: wf_game_def)
  show "grid_get_row g k = Inr (g ! k) \<and> length (g ! k) = ?n"
    if "square_grid ?n g" "k < ?n" for g k
    using that by (simp add: grid_get_row_def list_nth_def square_grid_length square_grid_nth)
  show "square_grid ?n xss" if "square_grid ?n xss" for xss :: "int list list"
    using that .
  show "map (\<lambda>k. map tile_value (g ! k)) [0..<?n] = map (map tile_value) g"
    if "square_grid ?n g" for g :: Grid
    using that by (simp add: map_nth_upt square_grid_length)
  show "all_zero xss" if "all_zero xss" for xss using that .
  show "map tile_value (g ! k) = map tile_value (g' ! k)"
    if "square_grid ?n g" "square_grid ?n g'" "k < ?n"
      "map (map tile_value) g = map (map tile_value) g'" for g g' :: Grid and k
  proof -
    have "map (map tile_value) g ! k = map (map tile_value) g' ! k" using that(4) by simp
    then show ?thesis using that(1-3) by (simp add: square_grid_length)
  qed
  show "slide_tiles gm' dir =
        ebind (efold (slide_line dir grid_get_row) [0..<?n] ([], [], gm')) (\<lambda>(vs, ms, gm2).
          ebind (set_tiles gm2 (map (map Tile_init) vs)) (\<lambda>gm3.
            Inr (gm3\<lparr>movement_matrix := ms\<rparr>)))"
    if "config gm' = config gm" for gm'
    using that assms(1) by (simp add: slide_tiles_def slide_each_row_def range_nat_def)
qed

lemma slide_tiles_columns:
  assumes "dir = UP \<or> dir = DOWN" "wf_game gm"
  shows "\<exists>gm1. slide_tiles gm dir = Inr gm1 \<and> wf_game gm1 \<and>
          (all_zero (movement_matrix gm1) \<longrightarrow>
             map (map tile_value) (grid gm1) = map (map tile_value) (grid gm) \<and>
             score gm1 = score gm \<and> slide_tiles gm1 dir = Inr gm1)"
proof (rule slide_tiles_core[where n="nat (grid_size (config gm))" and get_line=grid_get_col
      and L="\<lambda>g k. map (\<lambda>row. row ! k) g" and post=transpose_columns])
  let ?n = "nat (grid_size (config gm))"
  show "?n = nat (grid_size (config gm))" by simp
  show "square_grid ?n (grid gm)" using assms(2) by (simp add: wf_game_def)
  show "grid_get_col g k = Inr (map (\<lambda>row. row ! k) g) \<and> length (map (\<lambda>row. row ! k) g) = ?n"
    if "square_grid ?n g" "k < ?n" for g k
    using that by (simp add: grid_get_col_def square_grid_def list_all_iff)
  show "square_grid ?n (transpose_columns xss)" if "square_grid ?n xss" for xss :: "int list list"
    using that by (rule square_transpose_columns)
  show "transpose_columns (map (\<lambda>k. map tile_value (map (\<lambda>row. row ! k) g)) [0..<?n])
          = map (map tile_value) g"
    if sq: "square_grid ?n g" for g :: Grid
  proof -
    let ?cols = "map (\<lambda>k. map tile_value (map (\<lambda>row. row ! k) g)) [0..<?n]"
    have sqc: "square_grid ?n ?cols"
      using sq by (intro square_gridI) (simp_all add: square_grid_length)
    show ?thesis
    proof (rule square_grid_eqI[OF square_transpose_columns[OF sqc] square_map_map[OF sq]])
      fix r c assume rc: "r < ?n" "c < ?n"
      have "transpose_columns ?cols ! r ! c = ?cols ! c ! r"
        by (rule transpose_columns_nth[OF sqc rc])
      also have "\<dots> = tile_value (g ! r ! c)"
        using rc sq by (simp add: square_grid_length)
      also have "\<dots> = map (map tile_value) g ! r ! c"
        using rc sq by (simp add: square_grid_length square_grid_nth)
      finally show "transpose_columns ?cols ! r ! c = map (map tile_value) g ! r ! c" .
    qed
  qed
  show "all_zero xss" if "square_grid ?n xss" "all_zero (transpose_columns xss)" for xss
  proof -
    have "\<forall>r<?n. \<forall>c<?n. transpose_columns xss ! r ! c = 0"
      using that(2) all_zero_square[OF square_transpose_columns[OF that(1)]] by simp
    then have "\<forall>c<?n. \<forall>r<?n. xss ! c ! r = 0"
      using transpose_columns_nth[OF that(1)] by simp
    then show ?thesis using all_zero_square[OF that(1)] by simp
  qed
  show "map tile_value (map (\<lambda>row. row ! k) g) = map tile_value (map (\<lambda>row. row ! k) g')"
    if "square_grid ?n g" "square_grid ?n g'" "k < ?n"
      "map (map tile_value) g = map (map tile_value) g'" for g g' :: Grid and k
  proof -
    have col: "map (\<lambda>row. row ! k) (map (map tile_value) h)
        = map tile_value (map (\<lambda>row. row ! k) h)" if "square_grid ?n h" for h :: Grid
      using that \<open>k < ?n\<close> by (simp add: square_grid_def list_all_iff)
    have "map tile_value (map (\<lambda>row. row ! k) g) = map (\<lambda>row. row ! k) (map (map tile_value) g)"
      by (rule col[OF that(1), symmetric])
    also have "\<dots> = map (\<lambda>row. row ! k) (map (map tile_value) g')"
      by (simp only: that(4))
    also have "\<dots> = map tile_value (map (\<lambda>row. row ! k) g')"
      by (rule col[OF that(2)])
    finally show ?thesis .
  qed
  show "slide_tiles gm' dir =
        ebind (efold (slide_line dir grid_get_col) [0..<?n] ([], [], gm')) (\<lambda>(vs, ms, gm2).
          ebind (set_tiles gm2 (map (map Tile_init) (transpose_columns vs))) (\<lambda>gm3.
            Inr (gm3\<lparr>movement_matrix := transpose_columns ms\<rparr>)))"
    if "config gm' = config gm" for gm'
    using that assms(1)
    by (auto simp add: slide_tiles_def slide_each_column_def range_nat_def ebind_def
        split: sum.splits)
qed

lemmas slide_tiles_eval =
  slide_tiles_def slide_each_column_def slide_each_row_def slide_line_def slide_eval
  transpose_columns_def set_tiles_def grid_eval all_zero_def Let_def

section \<open>Sliding a line that was slid\<close>

lemma slide_loop_inv2:
  assumes "i \<le> length l" "slide_inv l sc0 i s" "Q i s"
    and step: "\<And>i s s'. i < length l \<Longrightarrow> slide_inv l sc0 i s \<Longrightarrow> Q i s \<Longrightarrow>
             slide_step rtv l (int i) s = Inr s' \<Longrightarrow> Q (Suc i) s'"
  shows "\<exists>s'. efold (slide_step rtv l) (py_range (int i) (int (length l))) s = Inr s'
              \<and> slide_inv l sc0 (length l) s' \<and> Q (length l) s'"
  using assms(1-3)
proof (induction "length l - i" arbitrary: i s)
  case 0
  then show ?case by (simp add: py_range_rec)
next
  case (Suc d)
  then have i: "i < length l" by simp
  obtain s1 where s1: "slide_step rtv l (int i) s = Inr s1" "slide_inv l sc0 (Suc i) s1"
    using slide_step_inv[OF i Suc.prems(2)] by blast
  have q1: "Q (Suc i) s1" using step[OF i Suc.prems(2,3) s1(1)] .
  have "d = length l - Suc i" using Suc.hyps(2) by simp
  from Suc.hyps(1)[OF this _ s1(2) q1] i
  obtain s' where "efold (slide_step rtv l) (py_range (int (Suc i)) (int (length l))) s1 = Inr s'"
      "slide_inv l sc0 (length l) s'" "Q (length l) s'" by auto
  moreover have "py_range (int i) (int (length l)) = int i # py_range (int (Suc i)) (int (length l))"
    using i by (subst py_range_rec) (simp add: add.commute)
  ultimately show ?case using s1 by simp
qed

lemma slide_loop_from_start2:
  assumes ne: "l \<noteq> []"
    and qinit: "\<And>k acc. k \<le> length l \<Longrightarrow> (\<forall>j<k. l ! j = 0) \<Longrightarrow>
       Q k \<lparr>new_list = map (\<lambda>_. 0) l, movement = map (\<lambda>_. 0) l,
                  new_index = 0, score_acc = sc, accessed = acc\<rparr>"
    and step: "\<And>i s s'. i < length l \<Longrightarrow> slide_inv l sc i s \<Longrightarrow> Q i s \<Longrightarrow>
             slide_step rtv l (int i) s = Inr s' \<Longrightarrow> Q (Suc i) s'"
  shows "\<exists>s. ebind (first_non_zero_index l 0) (\<lambda>start_index.
           efold (slide_step rtv l) (py_range start_index (int (length l)))
             \<lparr>new_list = map (\<lambda>_. 0) l, movement = map (\<lambda>_. 0) l,
                  new_index = 0, score_acc = sc, accessed = []\<rparr>) = Inr s
          \<and> slide_inv l sc (length l) s \<and> Q (length l) s"
proof -
  define init where "init = \<lparr>new_list = map (\<lambda>_. 0::int) l, movement = map (\<lambda>_. 0::int) l,
                  new_index = 0::int, score_acc = sc, accessed = []\<rparr>"
  have len: "0 < length l" using ne by simp
  obtain k where k: "first_non_zero_index l 0 = Inr k"
     "(k = - 1 \<and> (\<forall>j. j < length l \<longrightarrow> l ! j = 0)) \<or>
      (0 \<le> k \<and> k < int (length l) \<and> (\<forall>j. int j < k \<longrightarrow> l ! j = 0))"
    using first_non_zero_loop_spec[of 0 l] by (auto simp add: first_non_zero_index_def)
  from k(2) have "\<exists>s. efold (slide_step rtv l) (py_range k (int (length l))) init = Inr s
          \<and> slide_inv l sc (length l) s \<and> Q (length l) s"
  proof (elim disjE conjE)
    assume k1: "k = - 1" and z: "\<forall>j. j < length l \<longrightarrow> l ! j = 0"
    have allz: "\<forall>x\<in>set l. x = 0" using z by (auto simp add: in_set_conv_nth)
    have "nat (int (length l) - 1) < length l" using len by linarith
    then have "l ! nat (int (length l) - 1) = 0" using z by blast
    then have last: "py_get l (- 1) = Inr 0"
      using len by (simp add: py_get_def py_index_def Suc_le_eq)
    have rng: "py_range (- 1) (int (length l)) = (- 1) # py_range (int 0) (int (length l))"
      using len by (subst py_range_rec) simp
    have st: "slide_step rtv l (- 1) init = Inr (note_index (- 1) init)"
      using last by (simp add: slide_step_def)
    have i0: "slide_inv l sc 0 (note_index (- 1) init)"
      using len allz z by (simp add: slide_inv_def note_index_def init_def)
    have q0: "Q 0 (note_index (- 1) init)"
      using qinit[of 0 "[- 1]"] by (simp add: note_index_def init_def)
    from slide_loop_inv2[where Q=Q, OF _ i0 q0 step, of rtv]
    show ?thesis using k1 rng st by simp
  next
    assume b: "0 \<le> k" "k < int (length l)" and z: "\<forall>j. int j < k \<longrightarrow> l ! j = 0"
    have ik: "slide_inv l sc (nat k) init"
      using b z len by (auto simp add: slide_inv_def init_def)
    have qk: "Q (nat k) init"
      using qinit[of "nat k" "[]"] b z by (simp add: init_def)
    from slide_loop_inv2[where Q=Q, OF _ ik qk step, of rtv] b
    show ?thesis by simp
  qed
  then show ?thesis using k(1) by (simp add: init_def)
qed

lemma slide_step_form:
  assumes i: "i < length l" and inv: "slide_inv l sc0 i s" and nz: "l ! i \<noteq> 0"
  shows "slide_step rtv l (int i) s =
     Inr (let m = nat (new_index s); s1 = note_index (int m) (note_index (int i) s) in
       if l ! i = new_list s ! m then
          s1\<lparr>new_list := (new_list s)[m := new_list s ! m * rtv],
             movement := (movement s)[i := int m - int i],
             new_index := int m + 1, score_acc := score_acc s + l ! i * rtv\<rparr>
       else if new_list s ! m = 0 then
          s1\<lparr>new_list := (new_list s)[m := l ! i], movement := (movement s)[i := int m - int i]\<rparr>
       else (note_index (int m + 1) s1)\<lparr>new_list := (new_list s)[Suc m := l ! i],
             movement := (movement s)[i := int m + 1 - int i], new_index := int m + 1\<rparr>)"
proof -
  define m where "m = nat (new_index s)"
  have m: "new_index s = int m" "m \<le> i" "new_list s ! m \<noteq> 0 \<longrightarrow> m < i"
    using inv by (auto simp add: slide_inv_def m_def)
  have len: "length (new_list s) = length l" "length (movement s) = length l"
    using inv by (auto simp add: slide_inv_def)
  have a5: "Suc m < length (new_list s) \<or> new_list s ! m = 0 \<or> new_list s ! m = l ! i"
    using m i len by auto
  have mlen: "m < length (new_list s)" using m i len by simp
  have ilen: "i < length (movement s)" using i len by simp
  show ?thesis
    using slide_step_nonzero[OF i nz m(1) mlen a5 ilen, of rtv]
    by (simp add: m_def[symmetric] Let_def)
qed

lemma compact_inv_step:
  assumes rtv: "rtv \<noteq> 0" and i: "i < length l" and inv: "slide_inv l sc0 i s"
    and c: "compact_inv l i s" and st: "slide_step rtv l (int i) s = Inr s'"
  shows "compact_inv l (Suc i) s'"
proof (cases "l ! i = 0")
  case True
  then have "s' = note_index (int i) s" using slide_step_zero[OF i True, of rtv s] st by simp
  then show ?thesis using c by (simp add: compact_inv_def note_index_def)
next
  case False
  define m where "m = nat (new_index s)"
  have m: "new_index s = int m" "m \<le> i" "new_list s ! m \<noteq> 0 \<longrightarrow> m < i"
    using inv by (auto simp add: slide_inv_def m_def)
  have len: "length (new_list s) = length l" "length (movement s) = length l"
    using inv by (auto simp add: slide_inv_def)
  have c1: "\<forall>k<m. new_list s ! k \<noteq> 0" "\<forall>k. m < k \<and> k < length l \<longrightarrow> new_list s ! k = 0"
    using c m(1) by (auto simp add: compact_inv_def)
  have s': "s' = (let s1 = note_index (int m) (note_index (int i) s) in
       if l ! i = new_list s ! m then
          s1\<lparr>new_list := (new_list s)[m := new_list s ! m * rtv],
             movement := (movement s)[i := int m - int i],
             new_index := int m + 1, score_acc := score_acc s + l ! i * rtv\<rparr>
       else if new_list s ! m = 0 then
          s1\<lparr>new_list := (new_list s)[m := l ! i], movement := (movement s)[i := int m - int i]\<rparr>
       else (note_index (int m + 1) s1)\<lparr>new_list := (new_list s)[Suc m := l ! i],
             movement := (movement s)[i := int m + 1 - int i], new_index := int m + 1\<rparr>)"
    using slide_step_form[OF i inv False, of rtv] st by (simp add: m_def[symmetric] Let_def)
  show ?thesis
  proof (cases "l ! i = new_list s ! m")
    case True
    then have mi: "m < i" using m False by simp
    show ?thesis
      using s' True c1 rtv False mi i len
      by (auto simp add: compact_inv_def note_index_def nth_list_update less_Suc_eq)
  next
    case ne: False
    show ?thesis
    proof (cases "new_list s ! m = 0")
      case True
      show ?thesis
        using s' ne True c1 False m i len
        by (auto simp add: compact_inv_def note_index_def nth_list_update)
    next
      case nz2: False
      then have mi: "m < i" using m by simp
      show ?thesis
        using s' ne nz2 c1 False mi i len
        by (auto simp add: compact_inv_def note_index_def nth_list_update less_Suc_eq
            order_le_less)
    qed
  qed
qed

lemma fixed_inv_step:
  assumes l: "m \<le> length l" "\<forall>k<m. l ! k \<noteq> 0" "\<forall>k. m \<le> k \<and> k < length l \<longrightarrow> l ! k = 0"
      "\<forall>k. Suc k < m \<longrightarrow> l ! k \<noteq> l ! Suc k"
    and i: "i < length l" and inv: "slide_inv l sc0 i s"
    and f: "fixed_inv l m i s" and st: "slide_step rtv l (int i) s = Inr s'"
  shows "fixed_inv l m (Suc i) s'"
proof (cases "l ! i = 0")
  case True
  then have im: "m \<le> i" using l(2) by (meson not_le)
  have "s' = note_index (int i) s" using slide_step_zero[OF i True, of rtv s] st by simp
  then show ?thesis using f im by (simp add: fixed_inv_def note_index_def)
next
  case False
  then have im: "i < m" using l(3) i by (meson not_le)
  have len: "length (new_list s) = length l" "length (movement s) = length l"
    using inv by (auto simp add: slide_inv_def)
  have mz: "\<forall>k<length l. movement s ! k = 0" using f by (simp add: fixed_inv_def)
  then have "\<forall>k<i. movement s ! k = 0" using i by simp
  then have nl: "\<forall>k<i. new_list s ! k = l ! k"
      "\<forall>k. i \<le> k \<and> k < length l \<longrightarrow> new_list s ! k = 0"
    using inv by (simp_all add: slide_inv_def)
  note form = slide_step_form[OF i inv False, of rtv]
  show ?thesis
  proof (cases "i = 0")
    case True
    then have ni: "new_index s = 0" using f by (simp add: fixed_inv_def)
    have w: "new_list s ! 0 = 0" using nl(2) i True by simp
    have "s' = (note_index 0 (note_index 0 s))
        \<lparr>new_list := (new_list s)[0 := l ! 0], movement := (movement s)[0 := 0]\<rparr>"
      using form st ni w False True by (simp add: Let_def)
    then show ?thesis using mz ni True len i
      by (auto simp add: fixed_inv_def note_index_def nth_list_update)
  next
    case pos: False
    then have ni: "new_index s = int (i - 1)" using f im by (simp add: fixed_inv_def of_nat_diff)
    have w: "new_list s ! (i - 1) = l ! (i - 1)" using nl(1) pos by simp
    have wnz: "l ! (i - 1) \<noteq> 0" using l(2) im by simp
    have ne: "l ! i \<noteq> l ! (i - 1)" using l(4)[rule_format, of "i - 1"] pos im by auto
    have "s' = (note_index (int (i - 1) + 1) (note_index (int (i - 1)) (note_index (int i) s)))
        \<lparr>new_list := (new_list s)[Suc (i - 1) := l ! i],
         movement := (movement s)[i := int (i - 1) + 1 - int i],
         new_index := int (i - 1) + 1\<rparr>"
      using form st ni w wnz ne by (simp add: Let_def)
    moreover have "int (i - 1) + 1 - int i = 0" "int (i - 1) + 1 = int (Suc i) - 1"
      using pos by simp_all
    ultimately show ?thesis using mz len i
      by (auto simp add: fixed_inv_def note_index_def nth_list_update)
  qed
qed

lemma slide_loop_fixed:
  assumes ne: "l \<noteq> []"
    and l: "m \<le> length l" "\<forall>k<m. l ! k \<noteq> 0" "\<forall>k. m \<le> k \<and> k < length l \<longrightarrow> l ! k = 0"
      "\<forall>k. Suc k < m \<longrightarrow> l ! k \<noteq> l ! Suc k"
  shows "\<exists>s. ebind (first_non_zero_index l 0) (\<lambda>start_index.
           efold (slide_step rtv l) (py_range start_index (int (length l)))
             \<lparr>new_list = map (\<lambda>_. 0) l, movement = map (\<lambda>_. 0) l,
                  new_index = 0, score_acc = sc, accessed = []\<rparr>) = Inr s
          \<and> new_list s = l \<and> movement s = replicate (length l) 0 \<and> score_acc s = sc"
proof -
  have "\<exists>s. ebind (first_non_zero_index l 0) (\<lambda>start_index.
           efold (slide_step rtv l) (py_range start_index (int (length l)))
             \<lparr>new_list = map (\<lambda>_. 0) l, movement = map (\<lambda>_. 0) l,
                  new_index = 0, score_acc = sc, accessed = []\<rparr>) = Inr s
          \<and> slide_inv l sc (length l) s \<and> fixed_inv l m (length l) s"
  proof (rule slide_loop_from_start2[where Q="fixed_inv l m"])
    show "l \<noteq> []" by (rule ne)
  next
    fix k acc assume "k \<le> length l" and z: "\<forall>j<k. l ! j = 0"
    have "\<not> (0 < k \<and> k \<le> m)" using z l(2) by auto
    then show "fixed_inv l m k \<lparr>new_list = map (\<lambda>_. 0) l, movement = map (\<lambda>_. 0) l,
                  new_index = 0, score_acc = sc, accessed = acc\<rparr>"
      by (auto simp add: fixed_inv_def)
  next
    fix i s s'
    assume "i < length l" "slide_inv l sc i s" "fixed_inv l m i s"
       "slide_step rtv l (int i) s = Inr s'"
    then show "fixed_inv l m (Suc i) s'" by (rule fixed_inv_step[OF l])
  qed
  then obtain s where s: "ebind (first_non_zero_index l 0) (\<lambda>start_index.
           efold (slide_step rtv l) (py_range start_index (int (length l)))
             \<lparr>new_list = map (\<lambda>_. 0) l, movement = map (\<lambda>_. 0) l,
                  new_index = 0, score_acc = sc, accessed = []\<rparr>) = Inr s"
     "slide_inv l sc (length l) s" "fixed_inv l m (length l) s" by blast
  have len: "length (movement s) = length l" using s(2) by (simp add: slide_inv_def)
  have mz: "\<forall>k<length l. movement s ! k = 0" using s(3) by (simp add: fixed_inv_def)
  then have z: "\<forall>x\<in>set (movement s). x = 0" using len by (auto simp add: in_set_conv_nth)
  have mv: "movement s = replicate (length l) 0"
    using z len by (intro replicate_eqI) auto
  show ?thesis using s(1) slide_inv_final[OF s(2) z] mv by blast
qed

lemma slide_loop_compact:
  assumes ne: "l \<noteq> []" and rtv: "rtv \<noteq> 0"
  shows "\<exists>s. ebind (first_non_zero_index l 0) (\<lambda>start_index.
           efold (slide_step rtv l) (py_range start_index (int (length l)))
             \<lparr>new_list = map (\<lambda>_. 0) l, movement = map (\<lambda>_. 0) l,
                  new_index = 0, score_acc = sc, accessed = []\<rparr>) = Inr s
          \<and> length (new_list s) = length l \<and> compacted (new_list s)"
proof -
  have "\<exists>s. ebind (first_non_zero_index l 0) (\<lambda>start_index.
           efold (slide_step rtv l) (py_range start_index (int (length l)))
             \<lparr>new_list = map (\<lambda>_. 0) l, movement = map (\<lambda>_. 0) l,
                  new_index = 0, score_acc = sc, accessed = []\<rparr>) = Inr s
          \<and> slide_inv l sc (length l) s \<and> compact_inv l (length l) s"
  proof (rule slide_loop_from_start2[where Q="compact_inv l"])
    show "l \<noteq> []" by (rule ne)
  next
    fix k :: nat and acc
    show "compact_inv l k \<lparr>new_list = map (\<lambda>_. 0) l, movement = map (\<lambda>_. 0) l,
                  new_index = 0, score_acc = sc, accessed = acc\<rparr>"
      by (simp add: compact_inv_def)
  next
    fix i s s'
    assume "i < length l" "slide_inv l sc i s" "compact_inv l i s"
       "slide_step rtv l (int i) s = Inr s'"
    then show "compact_inv l (Suc i) s'" by (rule compact_inv_step[OF rtv])
  qed
  then obtain s where s: "ebind (first_non_zero_index l 0) (\<lambda>start_index.
           efold (slide_step rtv l) (py_range start_index (int (length l)))
             \<lparr>new_list = map (\<lambda>_. 0) l, movement = map (\<lambda>_. 0) l,
                  new_index = 0, score_acc = sc, accessed = []\<rparr>) = Inr s"
     "slide_inv l sc (length l) s" "compact_inv l (length l) s" by blast
  define j where "j = nat (new_index s)"
  have len: "length (new_list s) = length l" using s(2) by (simp add: slide_inv_def)
  have j: "new_index s = int j" "j \<le> length l" "new_list s ! j \<noteq> 0 \<longrightarrow> j < length l"
    using s(2) by (auto simp add: slide_inv_def j_def)
  have c: "\<forall>k<j. new_list s ! k \<noteq> 0" "\<forall>k. j < k \<and> k < length l \<longrightarrow> new_list s ! k = 0"
    using s(3) j(1) by (auto simp add: compact_inv_def)
  have "compacted (new_list s)"
  proof (cases "new_list s ! j = 0")
    case True
    have "\<forall>k. j \<le> k \<and> k < length l \<longrightarrow> new_list s ! k = 0"
      using c(2) True by (auto simp add: order_le_less)
    then show ?thesis unfolding compacted_def using c(1) j(2) len by auto
  next
    case False
    then have jl: "Suc j \<le> length l" using j(3) by simp
    have "\<forall>k<Suc j. new_list s ! k \<noteq> 0" using c(1) False by (auto simp add: less_Suc_eq)
    moreover have "\<forall>k. Suc j \<le> k \<and> k < length l \<longrightarrow> new_list s ! k = 0" using c(2) by auto
    ultimately show ?thesis unfolding compacted_def using jl len by auto
  qed
  then show ?thesis using s(1) len by blast
qed

lemma no_equal_pair_iff:
  "no_equal_pair l \<longleftrightarrow> (\<forall>k. Suc k < length l \<longrightarrow> \<not> (l ! k \<noteq> 0 \<and> l ! k = l ! Suc k))"
proof -
  have "no_equal_pair l \<longleftrightarrow>
      (\<forall>k<length (zip l (tl l)). \<not> (fst (zip l (tl l) ! k) \<noteq> 0 \<and>
           fst (zip l (tl l) ! k) = snd (zip l (tl l) ! k)))"
    by (simp add: no_equal_pair_def list_all_length case_prod_beta)
  also have "\<dots> \<longleftrightarrow> (\<forall>k<length l - 1. \<not> (l ! k \<noteq> 0 \<and> l ! k = l ! Suc k))"
    by (simp add: nth_tl)
  also have "\<dots> \<longleftrightarrow> (\<forall>k. Suc k < length l \<longrightarrow> \<not> (l ! k \<noteq> 0 \<and> l ! k = l ! Suc k))"
    by (simp add: less_diff_conv)
  finally show ?thesis .
qed

lemma no_equal_pair_rev: "no_equal_pair (rev l) = no_equal_pair l"
proof -
  have imp: "no_equal_pair (rev xs)" if h: "no_equal_pair xs" for xs
    unfolding no_equal_pair_iff
  proof (intro allI impI)
    fix k assume k: "Suc k < length (rev xs)"
    define j where "j = length xs - Suc (Suc k)"
    have j: "Suc j < length xs" "rev xs ! k = xs ! Suc j" "rev xs ! Suc k = xs ! j"
      using k by (simp_all add: j_def rev_nth Suc_diff_Suc)
    have "\<not> (xs ! j \<noteq> 0 \<and> xs ! j = xs ! Suc j)"
      using h j(1) by (simp add: no_equal_pair_iff)
    then show "\<not> (rev xs ! k \<noteq> 0 \<and> rev xs ! k = rev xs ! Suc k)"
      using j(2,3) by auto
  qed
  show ?thesis using imp[of l] imp[of "rev l"] by auto
qed

lemma slide_helper_twice:
  assumes rtv: "rtv \<noteq> 0" and ne: "line \<noteq> []"
    and first: "slide_helper rtv sc d line = Inr (vals, mv, sc')"
    and nep: "no_equal_pair vals"
  shows "slide_helper rtv sc2 d vals = Inr (vals, replicate (length vals) 0, sc2)"
proof -
  define l where "l = (if reverse_direction d then rev line else line)"
  have lne: "l \<noteq> []" using ne by (simp add: l_def)
  from slide_loop_compact[OF lne rtv, of sc]
  obtain s where s: "slide_run rtv sc d line = Inr s"
      "length (new_list s) = length l" "compacted (new_list s)"
    by (auto simp add: slide_run_def Let_def l_def)
  define out where "out = new_list s"
  have vals: "vals = (if reverse_direction d then rev out else out)"
    using first s(1) by (auto simp add: slide_helper_def out_def split: if_splits)
  have one: "out \<noteq> []" using s(2) lne by (auto simp add: out_def)
  have nout: "no_equal_pair out"
    using nep vals by (auto simp add: no_equal_pair_rev split: if_splits)
  obtain m where m: "m \<le> length out" "\<forall>k<m. out ! k \<noteq> 0"
     "\<forall>k. m \<le> k \<and> k < length out \<longrightarrow> out ! k = 0"
    using s(3) unfolding compacted_def out_def by blast
  have diff: "\<forall>k. Suc k < m \<longrightarrow> out ! k \<noteq> out ! Suc k"
  proof (intro allI impI)
    fix k assume k: "Suc k < m"
    then have "Suc k < length out" "out ! k \<noteq> 0" using m(1,2) by auto
    then show "out ! k \<noteq> out ! Suc k" using nout by (auto simp add: no_equal_pair_iff)
  qed
  from slide_loop_fixed[OF one m diff, of rtv sc2]
  obtain s2 where s2: "ebind (first_non_zero_index out 0) (\<lambda>start_index.
           efold (slide_step rtv out) (py_range start_index (int (length out)))
             \<lparr>new_list = map (\<lambda>_. 0) out, movement = map (\<lambda>_. 0) out,
                  new_index = 0, score_acc = sc2, accessed = []\<rparr>) = Inr s2"
     "new_list s2 = out" "movement s2 = replicate (length out) 0" "score_acc s2 = sc2"
    by blast
  have run2: "slide_run rtv sc2 d vals = Inr s2"
    using s2(1) vals by (auto simp add: slide_run_def Let_def)
  show ?thesis
    using run2 s2(2,3,4) vals by (auto simp add: slide_helper_def)
qed

lemma slide_lines_each:
  assumes P: "\<And>line sc v m sc1. line \<noteq> [] \<Longrightarrow>
        slide_helper rtv sc d line = Inr (v, m, sc1) \<Longrightarrow> P v"
    and lines: "\<forall>k\<in>set ks. get_line (grid gm) k = Inr (line_of k) \<and> line_of k \<noteq> []"
    and cfg: "root_tile_value (config gm) = rtv"
  shows "\<exists>vs ms sc'.
     efold (slide_line d get_line) ks (vals, movs, gm)
       = Inr (vals @ vs, movs @ ms, gm\<lparr>score := sc'\<rparr>) \<and> (\<forall>v\<in>set vs. P v)"
  using lines cfg
proof (induction ks arbitrary: vals movs gm)
  case Nil
  have "efold (slide_line d get_line) [] (vals, movs, gm)
      = Inr (vals @ [], movs @ [], gm\<lparr>score := score gm\<rparr>) \<and> (\<forall>v\<in>set []. P v)"
    by simp
  then show ?case by blast
next
  case (Cons k ks)
  have k: "get_line (grid gm) k = Inr (line_of k)" "line_of k \<noteq> []" using Cons.prems by auto
  have cfg: "root_tile_value (config gm) = rtv" using Cons.prems by simp
  let ?line = "map tile_value (line_of k)"
  have ne: "?line \<noteq> []" using k(2) by simp
  from slide_helper_spec[OF ne, of rtv "score gm" d]
  obtain v m sc1 where h: "slide_helper rtv (score gm) d ?line = Inr (v, m, sc1)"
    by blast
  have pv: "P v" using ne h by (rule P)
  let ?gm1 = "gm\<lparr>score := sc1\<rparr>"
  have step: "slide_line d get_line k (vals, movs, gm) = Inr (vals @ [v], movs @ [m], ?gm1)"
    using k(1) h cfg by (simp add: slide_line_def)
  have rest: "\<forall>k\<in>set ks. get_line (grid ?gm1) k = Inr (line_of k) \<and> line_of k \<noteq> []"
    using Cons.prems by simp
  have cfg1: "root_tile_value (config ?gm1) = rtv" using cfg by simp
  from Cons.IH[OF rest cfg1, of "vals @ [v]" "movs @ [m]"]
  obtain vs ms sc' where r:
    "efold (slide_line d get_line) ks (vals @ [v], movs @ [m], ?gm1)
       = Inr ((vals @ [v]) @ vs, (movs @ [m]) @ ms, ?gm1\<lparr>score := sc'\<rparr>)"
    "\<forall>v\<in>set vs. P v"
    by blast
  have "efold (slide_line d get_line) (k # ks) (vals, movs, gm)
       = Inr (vals @ (v # vs), movs @ (m # ms), gm\<lparr>score := sc'\<rparr>) \<and>
       (\<forall>v'\<in>set (v # vs). P v')"
    using step r pv by simp
  then show ?case by blast
qed

lemma map_const_upt: "map (\<lambda>k. c) [0..<n] = replicate n c"
  by (simp add: map_replicate_const)

lemma slide_tiles_twice_core:
  fixes get_line :: "Grid \<Rightarrow> nat \<Rightarrow> error + Tile list"
    and post unpost :: "int list list \<Rightarrow> int list list"
  assumes n: "n = nat (grid_size (config gm))"
    and sq: "square_grid n (grid gm)"
    and rtv: "root_tile_value (config gm) \<noteq> 0"
    and a: "\<And>g k. square_grid n g \<Longrightarrow> k < n \<Longrightarrow>
              get_line g k = Inr (L g k) \<and> length (L g k) = n"
    and b: "\<And>xss. square_grid n xss \<Longrightarrow> square_grid n (post xss)"
    and c: "\<And>vs k. square_grid n vs \<Longrightarrow> k < n \<Longrightarrow>
              map tile_value (L (map (map Tile_init) (post vs)) k) = vs ! k"
    and g: "post (replicate n (replicate n 0)) = replicate n (replicate n 0)"
    and h: "\<And>xss. square_grid n xss \<Longrightarrow> unpost (post xss) = xss"
    and run: "\<And>gm'. config gm' = config gm \<Longrightarrow> slide_tiles gm' dir =
        ebind (efold (slide_line dir get_line) [0..<n] ([], [], gm')) (\<lambda>(vs, ms, gm2).
          ebind (set_tiles gm2 (map (map Tile_init) (post vs))) (\<lambda>gm3.
            Inr (gm3\<lparr>movement_matrix := post ms\<rparr>)))"
  shows "\<exists>gm1. slide_tiles gm dir = Inr gm1 \<and> wf_game gm1 \<and>
          (list_all no_equal_pair (unpost (map (map tile_value) (grid gm1))) \<longrightarrow>
             slide_tiles gm1 dir = Inr (gm1\<lparr>movement_matrix := replicate n (replicate n 0)\<rparr>))"
proof -
  let ?g = "grid gm"
  let ?rtv = "root_tile_value (config gm)"
  let ?P = "\<lambda>v. no_equal_pair v \<longrightarrow>
      (\<forall>sc2. slide_helper ?rtv sc2 dir v = Inr (v, replicate (length v) 0, sc2))"
  have lines: "\<forall>k\<in>set [0..<n]. get_line ?g k = Inr (L ?g k) \<and> L ?g k \<noteq> []"
    using a[OF sq] by fastforce
  from slide_lines_spec[where ks="[0..<n]" and get_line=get_line and gm=gm
      and line_of="L ?g" and d=dir and vals="[]" and movs="[]", OF lines]
  obtain vs ms sc' where r0:
    "efold (slide_line dir get_line) [0..<n] ([], [], gm)
       = Inr ([] @ vs, [] @ ms, gm\<lparr>score := sc'\<rparr>) \<and>
     length vs = length [0..<n] \<and> length ms = length [0..<n] \<and>
     (\<forall>j<length [0..<n]. length (vs ! j) = length (L ?g ([0..<n] ! j)) \<and>
                     length (ms ! j) = length (L ?g ([0..<n] ! j))) \<and>
     ((\<forall>m\<in>set ms. \<forall>x\<in>set m. x = 0) \<longrightarrow>
        vs = map (\<lambda>k. map tile_value (L ?g k)) [0..<n] \<and> sc' = score gm \<and>
        (\<forall>k\<in>set [0..<n]. slide_helper ?rtv (score gm) dir
            (map tile_value (L ?g k)) = Inr (map tile_value (L ?g k), replicate (length (L ?g k)) 0, score gm)))"
    by blast
  have r: "efold (slide_line dir get_line) [0..<n] ([], [], gm) = Inr (vs, ms, gm\<lparr>score := sc'\<rparr>)"
    "length vs = n" "length ms = n"
    "\<forall>j<n. length (vs ! j) = length (L ?g j) \<and> length (ms ! j) = length (L ?g j)"
    using r0 by simp_all
  have ex2: "\<exists>vs2 ms2 sc2.
     efold (slide_line dir get_line) [0..<n] ([], [], gm)
       = Inr ([] @ vs2, [] @ ms2, gm\<lparr>score := sc2\<rparr>) \<and> (\<forall>v\<in>set vs2. ?P v)"
  proof (rule slide_lines_each[where rtv="?rtv" and line_of="L ?g"])
    show "\<forall>k\<in>set [0..<n]. get_line ?g k = Inr (L ?g k) \<and> L ?g k \<noteq> []" by (rule lines)
    show "root_tile_value (config gm) = ?rtv" by simp
  next
    fix line :: "int list" and sc v m sc1
    assume ne: "line \<noteq> []" and first: "slide_helper ?rtv sc dir line = Inr (v, m, sc1)"
    show "?P v" using slide_helper_twice[OF rtv ne first] by blast
  qed
  then obtain vs2 ms2 sc2 where e2:
    "efold (slide_line dir get_line) [0..<n] ([], [], gm)
       = Inr ([] @ vs2, [] @ ms2, gm\<lparr>score := sc2\<rparr>)" "\<forall>v\<in>set vs2. ?P v"
    by blast
  have "vs2 = vs" using e2(1) r(1) by simp
  then have each: "\<forall>v\<in>set vs. ?P v" using e2(2) by simp
  have sqv: "square_grid n vs" and sqm: "square_grid n ms"
    using r(2,3,4) a[OF sq] by (auto intro!: square_gridI)
  have sqpv: "square_grid n (map (map Tile_init) (post vs))"
    using b[OF sqv] by (rule square_map_map)
  let ?gm1 = "gm\<lparr>score := sc', grid := map (map Tile_init) (post vs),
                 movement_matrix := post ms\<rparr>"
  have st: "set_tiles (gm\<lparr>score := sc'\<rparr>) (map (map Tile_init) (post vs))
      = Inr (gm\<lparr>score := sc', grid := map (map Tile_init) (post vs)\<rparr>)"
    using set_tiles_square[of n "gm\<lparr>score := sc'\<rparr>" "map (map Tile_init) (post vs)"]
      sq n sqpv by simp
  have res: "slide_tiles gm dir = Inr ?gm1"
    using run[of gm] r(1) st by simp
  have wf1: "wf_game ?gm1" using sqpv n by (simp add: wf_game_def)
  have z: "slide_tiles ?gm1 dir = Inr (?gm1\<lparr>movement_matrix := replicate n (replicate n 0)\<rparr>)"
    if cond: "list_all no_equal_pair (unpost (map (map tile_value) (grid ?gm1)))"
  proof -
    have "map (map tile_value) (grid ?gm1) = post vs"
      using tile_value_Tile_init[of "post vs"] by simp
    then have "list_all no_equal_pair vs" using cond h[OF sqv] by simp
    then have fix_line: "\<And>k sc2. k < n \<Longrightarrow>
        slide_helper ?rtv sc2 dir (vs ! k) = Inr (vs ! k, replicate n 0, sc2)"
      using each r(2) sqv by (simp add: list_all_length square_grid_nth)
    let ?g1 = "grid ?gm1"
    have sq1: "square_grid n ?g1" using sqpv by simp
    have fixed1: "\<forall>k\<in>set [0..<n]. get_line (grid ?gm1) k = Inr (L ?g1 k) \<and>
      slide_helper (root_tile_value (config ?gm1)) (score ?gm1) dir (map tile_value (L ?g1 k))
        = Inr (map tile_value (L ?g1 k), replicate (length (L ?g1 k)) 0, score ?gm1)"
      using a[OF sq1] c[OF sqv] fix_line by simp
    have vmap: "map (\<lambda>k. map tile_value (L ?g1 k)) [0..<n] = vs"
    proof (rule nth_equalityI)
      show "length (map (\<lambda>k. map tile_value (L ?g1 k)) [0..<n]) = length vs"
        using r(2) by simp
    next
      fix i assume "i < length (map (\<lambda>k. map tile_value (L ?g1 k)) [0..<n])"
      then have i: "i < n" by simp
      then show "map (\<lambda>k. map tile_value (L ?g1 k)) [0..<n] ! i = vs ! i"
        using c[OF sqv i] by simp
    qed
    have zmap: "map (\<lambda>k. replicate (length (L ?g1 k)) (0::int)) [0..<n]
        = replicate n (replicate n 0)"
    proof -
      have "map (\<lambda>k. replicate (length (L ?g1 k)) (0::int)) [0..<n]
          = map (\<lambda>k. replicate n 0) [0..<n]"
        using a[OF sq1] by simp
      then show ?thesis by (simp add: map_const_upt)
    qed
    have run1: "efold (slide_line dir get_line) [0..<n] ([], [], ?gm1)
        = Inr (vs, replicate n (replicate n 0), ?gm1)"
      using slide_lines_fixed[where ks="[0..<n]" and get_line=get_line and gm="?gm1"
          and line_of="L ?g1" and d=dir and vals="[]" and movs="[]", OF fixed1]
        vmap zmap by simp
    have st1: "set_tiles ?gm1 (map (map Tile_init) (post vs)) = Inr ?gm1"
      using set_tiles_square[of n ?gm1 "map (map Tile_init) (post vs)"] sq1 n sqpv
      by simp
    show ?thesis
      using run[of ?gm1] run1 st1 g by simp
  qed
  show ?thesis using res wf1 z by blast
qed

lemma transpose_columns_twice:
  assumes "square_grid n xss"
  shows "transpose_columns (transpose_columns xss) = xss"
proof (rule square_grid_eqI[OF square_transpose_columns[OF square_transpose_columns[OF assms]] assms])
  fix r c assume rc: "r < n" "c < n"
  have "transpose_columns (transpose_columns xss) ! r ! c = transpose_columns xss ! c ! r"
    by (rule transpose_columns_nth[OF square_transpose_columns[OF assms] rc])
  also have "\<dots> = xss ! r ! c"
    by (rule transpose_columns_nth[OF assms rc(2) rc(1)])
  finally show "transpose_columns (transpose_columns xss) ! r ! c = xss ! r ! c" .
qed

lemma square_replicate: "square_grid n (replicate n (replicate n x))"
  by (rule square_gridI) simp_all

lemma transpose_columns_replicate:
  "transpose_columns (replicate n (replicate n x)) = replicate n (replicate n x)"
proof (rule square_grid_eqI[OF square_transpose_columns[OF square_replicate] square_replicate])
  fix r c assume rc: "r < n" "c < n"
  have "transpose_columns (replicate n (replicate n x)) ! r ! c
      = replicate n (replicate n x) ! c ! r"
    by (rule transpose_columns_nth[OF square_replicate rc])
  then show "transpose_columns (replicate n (replicate n x)) ! r ! c
      = replicate n (replicate n x) ! r ! c"
    using rc by simp
qed

lemma slide_tiles_twice_rows:
  assumes "\<not> (dir = UP \<or> dir = DOWN)" "wf_game gm" "root_tile_value (config gm) \<noteq> 0"
  shows "\<exists>gm1. slide_tiles gm dir = Inr gm1 \<and> wf_game gm1 \<and>
          (list_all no_equal_pair (map (map tile_value) (grid gm1)) \<longrightarrow>
             slide_tiles gm1 dir = Inr (gm1\<lparr>movement_matrix :=
               replicate (nat (grid_size (config gm))) (replicate (nat (grid_size (config gm))) 0)\<rparr>))"
proof (rule slide_tiles_twice_core[where n="nat (grid_size (config gm))"
      and get_line=grid_get_row and L="\<lambda>g k. g ! k" and post="\<lambda>xss. xss"
      and unpost="\<lambda>xss. xss"])
  let ?n = "nat (grid_size (config gm))"
  show "?n = nat (grid_size (config gm))" by simp
  show "square_grid ?n (grid gm)" using assms(2) by (simp add: wf_game_def)
  show "root_tile_value (config gm) \<noteq> 0" by (rule assms(3))
  show "grid_get_row g k = Inr (g ! k) \<and> length (g ! k) = ?n"
    if "square_grid ?n g" "k < ?n" for g k
    using that by (simp add: grid_get_row_def list_nth_def square_grid_length square_grid_nth)
  show "square_grid ?n xss" if "square_grid ?n xss" for xss :: "int list list"
    using that .
  show "map tile_value (map (map Tile_init) vs ! k) = vs ! k"
    if "square_grid ?n vs" "k < ?n" for vs k
    using that by (simp add: square_grid_length Tile_init_def comp_def)
  show "replicate ?n (replicate ?n (0::int)) = replicate ?n (replicate ?n 0)" by simp
  show "xss = xss" for xss :: "int list list" by simp
  show "slide_tiles gm' dir =
        ebind (efold (slide_line dir grid_get_row) [0..<?n] ([], [], gm')) (\<lambda>(vs, ms, gm2).
          ebind (set_tiles gm2 (map (map Tile_init) vs)) (\<lambda>gm3.
            Inr (gm3\<lparr>movement_matrix := ms\<rparr>)))"
    if "config gm' = config gm" for gm'
    using that assms(1) by (simp add: slide_tiles_def slide_each_row_def range_nat_def)
qed

lemma slide_tiles_twice_columns:
  assumes "dir = UP \<or> dir = DOWN" "wf_game gm" "root_tile_value (config gm) \<noteq> 0"
  shows "\<exists>gm1. slide_tiles gm dir = Inr gm1 \<and> wf_game gm1 \<and>
          (list_all no_equal_pair (transpose_columns (map (map tile_value) (grid gm1))) \<longrightarrow>
             slide_tiles gm1 dir = Inr (gm1\<lparr>movement_matrix :=
               replicate (nat (grid_size (config gm))) (replicate (nat (grid_size (config gm))) 0)\<rparr>))"
proof (rule slide_tiles_twice_core[where n="nat (grid_size (config gm))"
      and get_line=grid_get_col and L="\<lambda>g k. map (\<lambda>row. row ! k) g"
      and post=transpose_columns and unpost=transpose_columns])
  let ?n = "nat (grid_size (config gm))"
  show "?n = nat (grid_size (config gm))" by simp
  show "square_grid ?n (grid gm)" using assms(2) by (simp add: wf_game_def)
  show "root_tile_value (config gm) \<noteq> 0" by (rule assms(3))
  show "grid_get_col g k = Inr (map (\<lambda>row. row ! k) g) \<and> length (map (\<lambda>row. row ! k) g) = ?n"
    if "square_grid ?n g" "k < ?n" for g k
    using that by (simp add: grid_get_col_def square_grid_def list_all_iff)
  show "square_grid ?n (transpose_columns xss)" if "square_grid ?n xss" for xss :: "int list list"
    using that by (rule square_transpose_columns)
  show "map tile_value (map (\<lambda>row. row ! k) (map (map Tile_init) (transpose_columns vs))) = vs ! k"
    if sq: "square_grid ?n vs" and k: "k < ?n" for vs k
  proof (rule nth_equalityI)
    have sqt: "square_grid ?n (transpose_columns vs)" by (rule square_transpose_columns[OF sq])
    show "length (map tile_value (map (\<lambda>row. row ! k) (map (map Tile_init) (transpose_columns vs))))
        = length (vs ! k)"
      using sqt sq k by (simp add: square_grid_length square_grid_nth)
    fix r assume "r < length (map tile_value (map (\<lambda>row. row ! k)
        (map (map Tile_init) (transpose_columns vs))))"
    then have r: "r < ?n" using sqt by (simp add: square_grid_length)
    have "map tile_value (map (\<lambda>row. row ! k) (map (map Tile_init) (transpose_columns vs))) ! r
        = transpose_columns vs ! r ! k"
      using r k sqt by (simp add: square_grid_length square_grid_nth Tile_init_def)
    also have "\<dots> = vs ! k ! r" by (rule transpose_columns_nth[OF sq r k])
    finally show "map tile_value (map (\<lambda>row. row ! k)
        (map (map Tile_init) (transpose_columns vs))) ! r = vs ! k ! r" .
  qed
  show "transpose_columns (replicate ?n (replicate ?n (0::int))) = replicate ?n (replicate ?n 0)"
    by (rule transpose_columns_replicate)
  show "transpose_columns (transpose_columns xss) = xss" if "square_grid ?n xss"
    for xss :: "int list list"
    using that by (rule transpose_columns_twice)
  show "slide_tiles gm' dir =
        ebind (efold (slide_line dir grid_get_col) [0..<?n] ([], [], gm')) (\<lambda>(vs, ms, gm2).
          ebind (set_tiles gm2 (map (map Tile_init) (transpose_columns vs))) (\<lambda>gm3.
            Inr (gm3\<lparr>movement_matrix := transpose_columns ms\<rparr>)))"
    if "config gm' = config gm" for gm'
    using that assms(1)
    by (auto simp add: slide_tiles_def slide_each_column_def range_nat_def ebind_def
        split: sum.splits)
qed

section \<open>Sliding twice\<close>

text \<open>
  C4, where it fails: a slide that merged tiles can bring equal tiles side by side, and a
  second slide in the same direction then merges them. A row [2,2,2,2] slid LEFT becomes
  [4,4,0,0]; slid LEFT again it becomes [8,0,0,0], with a movement matrix that is not
  zero and a score that grows again.
\<close>

theorem slide_tiles_twice_merges_again:
  "slide_tiles (game_with_tiles default_config
       [[2, 2, 2, 2], [0, 0, 0, 0], [0, 0, 0, 0], [0, 0, 0, 0]]) LEFT
     = Inr ((game_with_tiles default_config
       [[4, 4, 0, 0], [0, 0, 0, 0], [0, 0, 0, 0], [0, 0, 0, 0]])
         \<lparr>score := 8,
          movement_matrix := [[0, - 1, - 1, - 2], [0, 0, 0, 0], [0, 0, 0, 0], [0, 0, 0, 0]]\<rparr>)
   \<and> slide_tiles ((game_with_tiles default_config
       [[4, 4, 0, 0], [0, 0, 0, 0], [0, 0, 0, 0], [0, 0, 0, 0]])
         \<lparr>score := 8,
          movement_matrix := [[0, - 1, - 1, - 2], [0, 0, 0, 0], [0, 0, 0, 0], [0, 0, 0, 0]]\<rparr>) LEFT
     = Inr ((game_with_tiles default_config
       [[8, 0, 0, 0], [0, 0, 0, 0], [0, 0, 0, 0], [0, 0, 0, 0]])
         \<lparr>score := 16,
          movement_matrix := [[0, - 1, 0, 0], [0, 0, 0, 0], [0, 0, 0, 0], [0, 0, 0, 0]]\<rparr>)"
  by (simp add: slide_tiles_eval)

text \<open>
  That \<open>root_tile_value\<close> is not zero matters below: with the value 0 a merge empties a
  slot of the output, so that a slide can leave a gap. The row [2,2,4,0] slid LEFT
  becomes [0,4,0,0], without equal neighbours, and LEFT again moves the 4.
\<close>

lemma slide_tiles_zero_root_moves_again:
  "slide_tiles (game_with_tiles (default_config\<lparr>root_tile_value := 0\<rparr>)
       [[2, 2, 4, 0], [0, 0, 0, 0], [0, 0, 0, 0], [0, 0, 0, 0]]) LEFT
     = Inr ((game_with_tiles (default_config\<lparr>root_tile_value := 0\<rparr>)
       [[0, 4, 0, 0], [0, 0, 0, 0], [0, 0, 0, 0], [0, 0, 0, 0]])
         \<lparr>movement_matrix := [[0, - 1, - 1, 0], [0, 0, 0, 0], [0, 0, 0, 0], [0, 0, 0, 0]]\<rparr>)
   \<and> no_equal_neighbours LEFT ((game_with_tiles (default_config\<lparr>root_tile_value := 0\<rparr>)
       [[0, 4, 0, 0], [0, 0, 0, 0], [0, 0, 0, 0], [0, 0, 0, 0]])
         \<lparr>movement_matrix := [[0, - 1, - 1, 0], [0, 0, 0, 0], [0, 0, 0, 0], [0, 0, 0, 0]]\<rparr>)
   \<and> slide_tiles ((game_with_tiles (default_config\<lparr>root_tile_value := 0\<rparr>)
       [[0, 4, 0, 0], [0, 0, 0, 0], [0, 0, 0, 0], [0, 0, 0, 0]])
         \<lparr>movement_matrix := [[0, - 1, - 1, 0], [0, 0, 0, 0], [0, 0, 0, 0], [0, 0, 0, 0]]\<rparr>) LEFT
     = Inr ((game_with_tiles (default_config\<lparr>root_tile_value := 0\<rparr>)
       [[4, 0, 0, 0], [0, 0, 0, 0], [0, 0, 0, 0], [0, 0, 0, 0]])
         \<lparr>movement_matrix := [[0, - 1, 0, 0], [0, 0, 0, 0], [0, 0, 0, 0], [0, 0, 0, 0]]\<rparr>)"
  by (simp add: slide_tiles_eval no_equal_neighbours_def lines_along_def no_equal_pair_def)

text \<open>
  C4, amended. On every game whose grid is square of the configured size and in every
  direction, \<open>slide_tiles\<close> returns (with such a game again). When \<open>root_tile_value\<close>
  is not zero and that first slide leaves no two equal non-zero tiles next to each other
  along the axis of the slide, a second slide in the same direction changes nothing: it
  returns the same game, grid and score included, with an all-zero movement matrix;
  whether the first slide moved or merged tiles does not matter. And when the first slide
  moved no tile, that is when the movement matrix it leaves is all zero, then for every
  \<open>root_tile_value\<close> it left the tile values and the score as they were, and the second
  slide returns the same game again.
\<close>

theorem slide_tiles_twice:
  assumes "wf_game gm"
  shows "\<exists>gm1. slide_tiles gm dir = Inr gm1 \<and> wf_game gm1 \<and>
          (root_tile_value (config gm) \<noteq> 0 \<and> no_equal_neighbours dir gm1 \<longrightarrow>
             slide_tiles gm1 dir = Inr (gm1\<lparr>movement_matrix :=
               replicate (nat (grid_size (config gm))) (replicate (nat (grid_size (config gm))) 0)\<rparr>)) \<and>
          (all_zero (movement_matrix gm1) \<longrightarrow>
             map (map tile_value) (grid gm1) = map (map tile_value) (grid gm) \<and>
             score gm1 = score gm \<and> slide_tiles gm1 dir = Inr gm1)"
proof -
  have old: "\<exists>gm1. slide_tiles gm dir = Inr gm1 \<and> wf_game gm1 \<and>
          (all_zero (movement_matrix gm1) \<longrightarrow>
             map (map tile_value) (grid gm1) = map (map tile_value) (grid gm) \<and>
             score gm1 = score gm \<and> slide_tiles gm1 dir = Inr gm1)"
    using slide_tiles_rows[OF _ assms] slide_tiles_columns[OF _ assms]
    by (cases "dir = UP \<or> dir = DOWN") blast+
  then obtain gm1 where g1: "slide_tiles gm dir = Inr gm1" "wf_game gm1"
    "all_zero (movement_matrix gm1) \<longrightarrow>
       map (map tile_value) (grid gm1) = map (map tile_value) (grid gm) \<and>
       score gm1 = score gm \<and> slide_tiles gm1 dir = Inr gm1"
    by blast
  have new: "slide_tiles gm1 dir = Inr (gm1\<lparr>movement_matrix :=
               replicate (nat (grid_size (config gm))) (replicate (nat (grid_size (config gm))) 0)\<rparr>)"
    if rtv: "root_tile_value (config gm) \<noteq> 0" and nen: "no_equal_neighbours dir gm1"
  proof (cases "dir = UP \<or> dir = DOWN")
    case True
    from slide_tiles_twice_columns[OF True assms rtv] g1(1) nen True
    show ?thesis by (auto simp add: no_equal_neighbours_def lines_along_def)
  next
    case False
    from slide_tiles_twice_rows[OF False assms rtv] g1(1) nen False
    show ?thesis by (auto simp add: no_equal_neighbours_def lines_along_def)
  qed
  show ?thesis using g1 new by blast
qed

theorem slide_tiles_twice_witness:
  "wf_game (game_with_tiles default_config
       [[2, 2, 2, 2], [0, 0, 0, 0], [0, 0, 4, 0], [2, 2, 0, 2]])
   \<and> root_tile_value default_config \<noteq> 0
   \<and> (\<exists>gm1. slide_tiles (game_with_tiles default_config
          [[2, 2, 2, 2], [0, 0, 0, 0], [0, 0, 4, 0], [2, 2, 0, 2]]) UP = Inr gm1
        \<and> map (map tile_value) (grid gm1)
             = [[4, 4, 2, 4], [0, 0, 4, 0], [0, 0, 0, 0], [0, 0, 0, 0]]
        \<and> movement_matrix gm1 = [[0, 0, 0, 0], [0, 0, 0, 0], [0, 0, - 1, 0], [- 3, - 3, 0, - 3]]
        \<and> no_equal_neighbours UP gm1
        \<and> slide_tiles gm1 UP = Inr (gm1\<lparr>movement_matrix :=
             [[0, 0, 0, 0], [0, 0, 0, 0], [0, 0, 0, 0], [0, 0, 0, 0]]\<rparr>))
   \<and> wf_game (game_with_tiles default_config
       [[1, 2, 3, 4], [8, 7, 6, 5], [9, 10, 11, 12], [16, 15, 14, 13]])
   \<and> (\<exists>gm1. slide_tiles (game_with_tiles default_config
          [[1, 2, 3, 4], [8, 7, 6, 5], [9, 10, 11, 12], [16, 15, 14, 13]]) UP = Inr gm1
        \<and> all_zero (movement_matrix gm1)
        \<and> map (map tile_value) (grid gm1)
             = [[1, 2, 3, 4], [8, 7, 6, 5], [9, 10, 11, 12], [16, 15, 14, 13]]
        \<and> slide_tiles gm1 UP = Inr gm1)"
proof -
  let ?A = "game_with_tiles default_config
       [[2, 2, 2, 2], [0, 0, 0, 0], [0, 0, 4, 0], [2, 2, 0, 2]]"
  let ?B = "(game_with_tiles default_config
       [[4, 4, 2, 4], [0, 0, 4, 0], [0, 0, 0, 0], [0, 0, 0, 0]])
         \<lparr>score := 12,
          movement_matrix := [[0, 0, 0, 0], [0, 0, 0, 0], [0, 0, - 1, 0], [- 3, - 3, 0, - 3]]\<rparr>"
  let ?F = "game_with_tiles default_config
       [[1, 2, 3, 4], [8, 7, 6, 5], [9, 10, 11, 12], [16, 15, 14, 13]]"
  have wfA: "wf_game ?A" by (simp add: grid_eval)
  have rtv: "root_tile_value default_config \<noteq> 0" by (simp add: default_config_def)
  have cfgA: "config ?A = default_config" by (simp add: game_with_tiles_def)
  have n: "nat (grid_size (config ?A)) = 4" by (simp add: game_with_tiles_def default_config_def)
  have runA: "slide_tiles ?A UP = Inr ?B" by (simp add: slide_tiles_eval)
  have valsB: "map (map tile_value) (grid ?B)
      = [[4, 4, 2, 4], [0, 0, 4, 0], [0, 0, 0, 0], [0, 0, 0, 0]]"
    by (simp add: grid_eval)
  have mmB: "movement_matrix ?B = [[0, 0, 0, 0], [0, 0, 0, 0], [0, 0, - 1, 0], [- 3, - 3, 0, - 3]]"
    by simp
  have nenB: "no_equal_neighbours UP ?B"
    by (simp add: no_equal_neighbours_def lines_along_def no_equal_pair_def
        transpose_columns_def grid_eval)
  have z: "replicate (nat (grid_size (config ?A))) (replicate (nat (grid_size (config ?A))) (0::int))
      = [[0, 0, 0, 0], [0, 0, 0, 0], [0, 0, 0, 0], [0, 0, 0, 0]]"
    unfolding n by (simp add: numeral_eq_Suc)
  from slide_tiles_twice[OF wfA, of UP] runA nenB rtv cfgA
  have "slide_tiles ?B UP = Inr (?B\<lparr>movement_matrix :=
      replicate (nat (grid_size (config ?A))) (replicate (nat (grid_size (config ?A))) 0)\<rparr>)"
    by auto
  then have twiceB: "slide_tiles ?B UP = Inr (?B\<lparr>movement_matrix :=
             [[0, 0, 0, 0], [0, 0, 0, 0], [0, 0, 0, 0], [0, 0, 0, 0]]\<rparr>)"
    unfolding z .
  have first: "\<exists>gm1. slide_tiles ?A UP = Inr gm1
        \<and> map (map tile_value) (grid gm1)
             = [[4, 4, 2, 4], [0, 0, 4, 0], [0, 0, 0, 0], [0, 0, 0, 0]]
        \<and> movement_matrix gm1 = [[0, 0, 0, 0], [0, 0, 0, 0], [0, 0, - 1, 0], [- 3, - 3, 0, - 3]]
        \<and> no_equal_neighbours UP gm1
        \<and> slide_tiles gm1 UP = Inr (gm1\<lparr>movement_matrix :=
             [[0, 0, 0, 0], [0, 0, 0, 0], [0, 0, 0, 0], [0, 0, 0, 0]]\<rparr>)"
    using runA valsB mmB nenB twiceB by (intro exI[of _ ?B] conjI)
  have wfF: "wf_game ?F" by (simp add: grid_eval)
  have runF: "slide_tiles ?F UP = Inr ?F" by (simp add: slide_tiles_eval)
  have zF: "all_zero (movement_matrix ?F)" by (simp add: grid_eval all_zero_def)
  have vF: "map (map tile_value) (grid ?F)
      = [[1, 2, 3, 4], [8, 7, 6, 5], [9, 10, 11, 12], [16, 15, 14, 13]]"
    by (simp add: grid_eval)
  from slide_tiles_twice[OF wfF, of UP] runF zF
  have "slide_tiles ?F UP = Inr ?F \<and> all_zero (movement_matrix ?F) \<and>
      map (map tile_value) (grid ?F) = map (map tile_value) (grid ?F) \<and> slide_tiles ?F UP = Inr ?F"
    by auto
  then have second: "\<exists>gm1. slide_tiles ?F UP = Inr gm1
        \<and> all_zero (movement_matrix gm1)
        \<and> map (map tile_value) (grid gm1)
             = [[1, 2, 3, 4], [8, 7, 6, 5], [9, 10, 11, 12], [16, 15, 14, 13]]
        \<and> slide_tiles gm1 UP = Inr gm1"
    using vF by (intro exI[of _ ?F]) simp
  show ?thesis using wfA rtv first wfF second by (intro conjI)
qed


section \<open>Construction\<close>

lemma get_empty_tiles_square:
  assumes "wf_game gm"
  shows "\<exists>ps. get_empty_tiles gm = Inr ps \<and>
     (\<forall>p\<in>set ps. fst p < nat (grid_size (config gm)) \<and> snd p < nat (grid_size (config gm)))"
  unfolding get_empty_tiles_def
proof (rule efold_inv)
  show "\<forall>p\<in>set []. fst p < nat (grid_size (config gm)) \<and> snd p < nat (grid_size (config gm))"
    by simp
next
  fix x :: "nat \<times> nat" and s :: "(nat \<times> nat) list"
  assume x: "x \<in> set (grid_cells (grid_size (config gm)))"
    and s: "\<forall>p\<in>set s. fst p < nat (grid_size (config gm)) \<and> snd p < nat (grid_size (config gm))"
  obtain r c where rc: "x = (r, c)" by (cases x)
  have b: "r < nat (grid_size (config gm))" "c < nat (grid_size (config gm))"
    using x rc by (auto simp add: set_grid_cells)
  have "on_board (grid gm) c r"
    using assms b by (simp add: wf_game_def square_grid_on_board)
  then show "\<exists>s'. (case x of (r, c) \<Rightarrow> \<lambda>empty_tiles.
            ebind (grid_get (grid gm) c r) (\<lambda>tile.
              Inr (if tile_value tile = 0 then empty_tiles @ [(c, r)] else empty_tiles))) s = Inr s'
       \<and> (\<forall>p\<in>set s'. fst p < nat (grid_size (config gm)) \<and> snd p < nat (grid_size (config gm)))"
    using rc s b by (simp add: grid_get_def)
qed

lemma spawn_new_tile_square:
  assumes "wf_game gm"
  shows "\<exists>loc g rs'. spawn_new_tile gm rs = Inr (loc, gm\<lparr>grid := g\<rparr>, rs') \<and>
           square_grid (nat (grid_size (config gm))) g"
proof -
  let ?n = "nat (grid_size (config gm))"
  obtain v rs1 where v: "get_new_tile_value gm rs = (v, rs1)" by (cases "get_new_tile_value gm rs")
  obtain ps where ps: "get_empty_tiles gm = Inr ps" "\<forall>p\<in>set ps. fst p < ?n \<and> snd p < ?n"
    using get_empty_tiles_square[OF assms] by blast
  have sq: "square_grid ?n (grid gm)" using assms by (simp add: wf_game_def)
  have same: "gm\<lparr>grid := grid gm\<rparr> = gm" by simp
  show ?thesis
  proof (cases "ps = []")
    case True
    then have "spawn_new_tile gm rs = Inr (None, gm\<lparr>grid := grid gm\<rparr>, rs1)"
      using v ps(1) by (simp add: spawn_new_tile_def get_random_empty_tile_def)
    then show ?thesis using sq by blast
  next
    case False
    define k where "k = randint_draws rs1 (randint_calls rs1) mod length ps"
    have k: "k < length ps" using False by (simp add: k_def)
    have ri: "randint rs1 0 (int (length ps) - 1)
        = Inr (int k, rs1\<lparr>randint_calls := randint_calls rs1 + 1\<rparr>)"
      using False by (simp add: randint_def k_def zmod_int Suc_le_eq)
    obtain c r where p: "ps ! k = (c, r)" by (cases "ps ! k")
    have cr: "c < ?n" "r < ?n" using ps(2) k p by (metis fst_conv nth_mem snd_conv)+
    have pick: "get_random_empty_tile gm rs1
        = Inr (Some (c, r), rs1\<lparr>randint_calls := randint_calls rs1 + 1\<rparr>)"
      using ps(1) False ri k p by (simp add: get_random_empty_tile_def)
    have "spawn_new_tile gm rs = Inr (Some (c, r),
        gm\<lparr>grid := (grid gm)[r := (grid gm ! r)[c := Tile_init v]]\<rparr>,
        rs1\<lparr>randint_calls := randint_calls rs1 + 1\<rparr>)"
      using v pick grid_set_square(1)[OF sq cr(2) cr(1)] by (simp add: spawn_new_tile_def)
    then show ?thesis using grid_set_square(2)[OF sq cr(2) cr(1)] by blast
  qed
qed


lemma initial_spawn_square:
  assumes "wf_game gm"
  shows "\<exists>g locs rs'. initial_spawn gm rs =
            Inr (gm\<lparr>grid := g, init_mode := False, latest_spawn_locations := locs\<rparr>, rs') \<and>
           square_grid (nat (grid_size (config gm))) g"
proof -
  let ?n = "nat (grid_size (config gm))"
  let ?P = "\<lambda>st :: location option list \<times> Game \<times> RandomSource.
     \<exists>g. fst (snd st) = gm\<lparr>grid := g\<rparr> \<and> square_grid ?n g"
  let ?body = "\<lambda>(_ :: nat) (spawn_locations, gm1, rs1).
             ebind (spawn_new_tile gm1 rs1) (\<lambda>(loc, gm2, rs2).
               Inr (spawn_locations @ [map_option (\<lambda>(c, r). PyTuple c r) loc], gm2, rs2))"
  have init: "?P ([], gm, rs)"
    using assms by (auto simp add: wf_game_def intro: exI[of _ "grid gm"])
  have step: "\<exists>s'. ?body x st = Inr s' \<and> ?P s'" if "?P st" for x :: nat and st
  proof -
    obtain locs gm1 rs1 where st: "st = (locs, gm1, rs1)" by (cases st)
    have "\<exists>g. gm1 = gm\<lparr>grid := g\<rparr> \<and> square_grid ?n g" using that unfolding st by simp
    then obtain g where g: "gm1 = gm\<lparr>grid := g\<rparr>" "square_grid ?n g" by blast
    have wf1: "wf_game gm1" using g by (simp add: wf_game_def)
    from spawn_new_tile_square[OF wf1, of rs1]
    obtain loc g' rs' where sp: "spawn_new_tile gm1 rs1 = Inr (loc, gm1\<lparr>grid := g'\<rparr>, rs')"
      "square_grid (nat (grid_size (config gm1))) g'" by blast
    have "?body x st = Inr (locs @ [map_option (\<lambda>(c, r). PyTuple c r) loc],
        gm\<lparr>grid := g'\<rparr>, rs')"
      using st sp(1) g(1) by simp
    moreover have "square_grid ?n g'" using sp(2) g(1) by simp
    ultimately show ?thesis by auto
  qed
  from efold_inv[of ?P "([], gm, rs)" "range_nat (starting_tile_count (config gm))" ?body,
      OF init step]
  obtain s' where s': "efold ?body (range_nat (starting_tile_count (config gm))) ([], gm, rs) = Inr s'"
    "?P s'" by blast
  obtain locs gm1 rs1 where st: "s' = (locs, gm1, rs1)" by (cases s')
  have "\<exists>g. gm1 = gm\<lparr>grid := g\<rparr> \<and> square_grid ?n g" using s'(2) unfolding st by simp
  then obtain g where g: "gm1 = gm\<lparr>grid := g\<rparr>" "square_grid ?n g" by blast
  have "initial_spawn gm rs =
      Inr (gm\<lparr>grid := g, init_mode := False, latest_spawn_locations := locs\<rparr>, rs1)"
    using s'(1) st g(1) by (simp add: initial_spawn_def)
  then show ?thesis using g(2) by blast
qed

lemma build_grid_square: "square_grid (nat n) (build_grid_with_value v n)"
  by (simp add: build_grid_with_value_def square_grid_def range_nat_def list_all_iff)

lemma Game_init_total:
  "\<exists>g locs rs'. Game_init cfg rs =
      Inr (\<lparr>config = cfg, init_mode = False, grid = g, score = 0,
            movement_matrix =
              map (\<lambda>_. map (\<lambda>_. 0) (range_nat (grid_size cfg))) (range_nat (grid_size cfg)),
            latest_spawn_result = None, latest_spawn_locations = locs\<rparr>, rs') \<and>
      square_grid (nat (grid_size cfg)) g"
proof -
  let ?gm = "\<lparr>config = cfg, init_mode = True,
        grid = build_grid_with_value 0 (grid_size cfg),
        score = 0,
        movement_matrix =
          map (\<lambda>_. map (\<lambda>_. 0) (range_nat (grid_size cfg))) (range_nat (grid_size cfg)),
        latest_spawn_result = None, latest_spawn_locations = []\<rparr>"
  have "wf_game ?gm" by (simp add: wf_game_def build_grid_square)
  from initial_spawn_square[OF this, of rs]
  show ?thesis by (simp add: Game_init_def)
qed


lemmas spawn_eval =
  Game_init_def initial_spawn_def spawn_new_tile_def get_new_tile_value_def np_rand_def
  get_random_empty_tile_def get_empty_tiles_def randint_def build_grid_with_value_def
  py_get_def py_index_def fixed_draws_def grid_eval

text \<open>
  C7, where it fails: a configuration whose mutation probability is 3/2 is accepted.
  The constructor builds the game and spawns the two starting tiles (both mutated, as
  every draw is below 3/2).
\<close>

theorem Game_init_invalid_probability:
  "Game_init (default_config\<lparr>mutation_probability := 3 / 2\<rparr>) fixed_draws
     = Inr ((game_with_tiles (default_config\<lparr>mutation_probability := 3 / 2\<rparr>)
              [[4, 4, 0, 0], [0, 0, 0, 0], [0, 0, 0, 0], [0, 0, 0, 0]])
               \<lparr>latest_spawn_locations := [Some (PyTuple 0 0), Some (PyTuple 1 0)]\<rparr>,
            fixed_draws\<lparr>randint_calls := 2, rand_calls := 2\<rparr>)"
  by (simp add: spawn_eval)

text \<open>
  C7, amended. \<open>Game.__init__\<close> validates nothing: for every configuration with a
  grid size of at least 1, whatever its other fields, it returns a game that holds the
  configuration unchanged, with a square grid of that size, score 0, no spawn result and
  \<open>init_mode\<close> off.
\<close>

theorem Game_init_no_validation:
  assumes "0 < grid_size cfg"
  shows "\<exists>gm rs'. Game_init cfg rs = Inr (gm, rs') \<and> config gm = cfg \<and> wf_game gm \<and>
           \<not> init_mode gm \<and> score gm = 0 \<and> latest_spawn_result gm = None"
proof -
  from Game_init_total[of cfg rs]
  obtain g locs rs' where r: "Game_init cfg rs =
      Inr (\<lparr>config = cfg, init_mode = False, grid = g, score = 0,
            movement_matrix =
              map (\<lambda>_. map (\<lambda>_. 0) (range_nat (grid_size cfg))) (range_nat (grid_size cfg)),
            latest_spawn_result = None, latest_spawn_locations = locs\<rparr>, rs')"
      "square_grid (nat (grid_size cfg)) g" by blast
  then show ?thesis by (simp add: wf_game_def)
qed

theorem Game_init_no_validation_witness:
  "0 < grid_size (default_config\<lparr>mutation_probability := - 1, spawn_tile_count := - 3\<rparr>) \<and>
   (\<exists>gm rs'. Game_init (default_config\<lparr>mutation_probability := - 1, spawn_tile_count := - 3\<rparr>)
                fixed_draws = Inr (gm, rs') \<and>
      config gm = default_config\<lparr>mutation_probability := - 1, spawn_tile_count := - 3\<rparr> \<and>
      wf_game gm)"
  using Game_init_no_validation[of "default_config\<lparr>mutation_probability := - 1, spawn_tile_count := - 3\<rparr>"
      fixed_draws]
  by (auto simp add: default_config_def)


section \<open>Saving and loading a game\<close>

lemma GameConfig_init_config_dict: "GameConfig_init (config_dict cfg) = Inr cfg"
  by (simp add: GameConfig_init_def config_dict_def or_default_def)

lemma load_dict_json_form_to_dict:
  assumes "wf_game gm"
  shows "\<exists>rs'. load_dict (json_form (to_dict gm)) rs =
     Inr (\<lparr>config = config gm, init_mode = False,
           grid = map (map Tile_init) (map (map tile_value) (grid gm)),
           score = score gm, movement_matrix = movement_matrix gm,
           latest_spawn_result = latest_spawn_result gm,
           latest_spawn_locations = map (map_option as_list) (latest_spawn_locations gm)\<rparr>, rs')"
proof -
  let ?cfg = "config gm"
  let ?n = "nat (grid_size ?cfg)"
  from Game_init_total[of ?cfg rs]
  obtain g locs rs' where r: "Game_init ?cfg rs =
      Inr (\<lparr>config = ?cfg, init_mode = False, grid = g, score = 0,
            movement_matrix =
              map (\<lambda>_. map (\<lambda>_. 0) (range_nat (grid_size ?cfg))) (range_nat (grid_size ?cfg)),
            latest_spawn_result = None, latest_spawn_locations = locs\<rparr>, rs')"
      "square_grid ?n g" by blast
  let ?g0 = "\<lparr>config = ?cfg, init_mode = False, grid = g, score = 0,
            movement_matrix =
              map (\<lambda>_. map (\<lambda>_. 0) (range_nat (grid_size ?cfg))) (range_nat (grid_size ?cfg)),
            latest_spawn_result = None, latest_spawn_locations = locs\<rparr>"
  let ?tiles = "map (map Tile_init) (map (map tile_value) (grid gm))"
  have sqt: "square_grid ?n ?tiles"
    using assms by (simp add: wf_game_def square_map_map)
  have st: "set_tiles ?g0 ?tiles = Inr (?g0\<lparr>grid := ?tiles\<rparr>)"
    using set_tiles_square[of ?n ?g0 ?tiles] r(2) sqt by simp
  have "load_dict (json_form (to_dict gm)) rs =
     Inr (\<lparr>config = config gm, init_mode = False, grid = ?tiles,
           score = score gm, movement_matrix = movement_matrix gm,
           latest_spawn_result = latest_spawn_result gm,
           latest_spawn_locations = map (map_option as_list) (latest_spawn_locations gm)\<rparr>, rs')"
    using r(1) st
    by (simp add: load_dict_def to_dict_def json_form_def dict_get_def
        GameConfig_init_config_dict)
  then show ?thesis by blast
qed

lemma as_list_idem: "as_list (as_list x) = as_list x"
  by (cases x) simp_all

text \<open>
  C6, where it fails: the saved game holds its spawn locations as tuples, and the loaded
  game holds them as lists, which are other values. The test's game with the locations
  (1, 0) and (4, 4) comes back with [1, 0] and [4, 4].
\<close>

theorem save_load_changes_locations:
  "latest_spawn_locations saved_game = [Some (PyTuple 1 0), Some (PyTuple 4 4)] \<and>
   ebind (load (example_loads (to_dict saved_game))
            (to_json (example_dumps (to_dict saved_game)) saved_game) fixed_draws)
     (\<lambda>(gm', rs'). Inr (latest_spawn_locations gm'))
     = Inr [Some (PyList 1 0), Some (PyList 4 4)]"
  by (simp add: saved_game_def load_def to_json_def example_loads_def example_dumps_def
      load_dict_def to_dict_def json_form_def dict_get_def GameConfig_init_def config_dict_def
      or_default_def set_tiles_def spawn_eval)

text \<open>
  C6, amended. For every game whose grid is square of the configured size, when the
  JSON library reads back the document it wrote for this game, with a list for every
  tuple, and writes a tuple and a list alike, loading the saved string succeeds and
  saving the loaded game gives the same string again. The loaded game has the
  configuration, the grid values, the score, the movement matrix and the spawn result of
  the saved one, and its spawn locations with every tuple turned into a two-element
  list. The random draws of the constructor that \<open>load\<close> runs do not show in the
  result: every cell it fills is overwritten.
\<close>

theorem save_load_save:
  assumes "wf_game gm"
    and "loads (dumps (to_dict gm)) = Inr (json_form (to_dict gm))"
    and "dumps (json_form (to_dict gm)) = dumps (to_dict gm)"
  shows "\<exists>gm' rs'. load loads (to_json dumps gm) rs = Inr (gm', rs') \<and>
           to_json dumps gm' = to_json dumps gm \<and>
           config gm' = config gm \<and>
           map (map tile_value) (grid gm') = map (map tile_value) (grid gm) \<and>
           score gm' = score gm \<and>
           movement_matrix gm' = movement_matrix gm \<and>
           latest_spawn_result gm' = latest_spawn_result gm \<and>
           latest_spawn_locations gm' = map (map_option as_list) (latest_spawn_locations gm)"
proof -
  let ?gm' = "\<lparr>config = config gm, init_mode = False,
           grid = map (map Tile_init) (map (map tile_value) (grid gm)),
           score = score gm, movement_matrix = movement_matrix gm,
           latest_spawn_result = latest_spawn_result gm,
           latest_spawn_locations = map (map_option as_list) (latest_spawn_locations gm)\<rparr>"
  obtain rs' where r: "load_dict (json_form (to_dict gm)) rs = Inr (?gm', rs')"
    using load_dict_json_form_to_dict[OF assms(1), of rs] by blast
  have l: "load loads (to_json dumps gm) rs = Inr (?gm', rs')"
    using r assms(2) by (simp add: load_def to_json_def)
  have v: "map (map tile_value) (grid ?gm') = map (map tile_value) (grid gm)"
    using tile_value_Tile_init[of "map (map tile_value) (grid gm)"] by simp
  have d: "to_dict ?gm' = json_form (to_dict gm)"
    using v by (simp add: to_dict_def json_form_def)
  have j: "to_json dumps ?gm' = to_json dumps gm"
    using d assms(3) by (simp add: to_json_def)
  show ?thesis
    using l j v by (intro exI[of _ ?gm'] exI[of _ rs']) simp
qed

theorem save_load_save_witness:
  "wf_game saved_game \<and>
   example_loads (to_dict saved_game) (example_dumps (to_dict saved_game) (to_dict saved_game))
     = Inr (json_form (to_dict saved_game)) \<and>
   example_dumps (to_dict saved_game) (json_form (to_dict saved_game))
     = example_dumps (to_dict saved_game) (to_dict saved_game) \<and>
   (\<exists>gm' rs'. load (example_loads (to_dict saved_game))
                 (to_json (example_dumps (to_dict saved_game)) saved_game) fixed_draws
               = Inr (gm', rs') \<and>
      to_json (example_dumps (to_dict saved_game)) gm'
        = to_json (example_dumps (to_dict saved_game)) saved_game \<and>
      map (map tile_value) (grid gm')
        = [[0, 2, 4, 0, 16], [0, 0, 0, 0, 0], [0, 0, 0, 0, 8], [8, 0, 0, 0, 0], [0, 0, 0, 0, 2]] \<and>
      latest_spawn_locations gm' = [Some (PyList 1 0), Some (PyList 4 4)])"
proof -
  have wf: "wf_game saved_game" by (simp add: saved_game_def grid_eval)
  have c1: "example_loads (to_dict saved_game)
      (example_dumps (to_dict saved_game) (to_dict saved_game)) = Inr (json_form (to_dict saved_game))"
    by (simp add: example_loads_def example_dumps_def)
  have c2: "example_dumps (to_dict saved_game) (json_form (to_dict saved_game))
     = example_dumps (to_dict saved_game) (to_dict saved_game)"
    by (simp add: example_dumps_def json_form_def option.map_comp list.map_comp comp_def
        as_list_idem)
  have v: "map (map tile_value) (grid saved_game)
      = [[0, 2, 4, 0, 16], [0, 0, 0, 0, 0], [0, 0, 0, 0, 8], [8, 0, 0, 0, 0], [0, 0, 0, 0, 2]]"
    by (simp add: saved_game_def grid_eval)
  have l: "map (map_option as_list) (latest_spawn_locations saved_game)
      = [Some (PyList 1 0), Some (PyList 4 4)]"
    by (simp add: saved_game_def)
  from save_load_save[where gm=saved_game and loads="example_loads (to_dict saved_game)"
      and dumps="example_dumps (to_dict saved_game)" and rs=fixed_draws, OF wf c1 c2] v l
  have "\<exists>gm' rs'. load (example_loads (to_dict saved_game))
                 (to_json (example_dumps (to_dict saved_game)) saved_game) fixed_draws
               = Inr (gm', rs') \<and>
      to_json (example_dumps (to_dict saved_game)) gm'
        = to_json (example_dumps (to_dict saved_game)) saved_game \<and>
      map (map tile_value) (grid gm')
        = [[0, 2, 4, 0, 16], [0, 0, 0, 0, 0], [0, 0, 0, 0, 8], [8, 0, 0, 0, 0], [0, 0, 0, 0, 2]] \<and>
      latest_spawn_locations gm' = [Some (PyList 1 0), Some (PyList 4 4)]"
    by (elim exE conjE, intro exI conjI) simp_all
  then show ?thesis using wf c1 c2 by blast
qed

section \<open>What loading checks\<close>

lemma covers_map: "covers n (map (map f) rows) = covers n rows"
  by (simp add: covers_def list_all_iff take_map)

lemma covers_iff:
  "covers n rows \<longleftrightarrow> n \<le> length rows \<and> (\<forall>r<n. n \<le> length (rows ! r))"
  by (auto simp add: covers_def list_all_length)

lemma set_tiles_loop_fail:
  assumes "\<forall>p\<in>set ps. fst p < n \<and> snd p < n" "square_grid n g"
    "\<exists>p\<in>set ps. \<not> (fst p < length tiles \<and> snd p < length (tiles ! fst p))"
  shows "efold (\<lambda>(r, c) g. ebind (list_nth tiles r) (\<lambda>row.
             ebind (list_nth row c) (\<lambda>t. grid_set g c r t))) ps g = Inl IndexError"
  using assms
proof (induction ps arbitrary: g)
  case Nil
  then show ?case by simp
next
  case (Cons p ps)
  obtain r c where p: "p = (r, c)" by (cases p)
  have rc: "r < n" "c < n" using Cons.prems(1) p by auto
  show ?case
  proof (cases "r < length tiles \<and> c < length (tiles ! r)")
    case False
    then show ?thesis using p by (auto simp add: list_nth_def)
  next
    case True
    let ?g1 = "g[r := (g ! r)[c := tiles ! r ! c]]"
    have g1: "grid_set g c r (tiles ! r ! c) = Inr ?g1" "square_grid n ?g1"
      using grid_set_square[OF Cons.prems(2) rc] by auto
    have rest: "\<forall>p\<in>set ps. fst p < n \<and> snd p < n" using Cons.prems(1) by simp
    have bad: "\<exists>p\<in>set ps. \<not> (fst p < length tiles \<and> snd p < length (tiles ! fst p))"
      using Cons.prems(3) True p by auto
    from Cons.IH[OF rest g1(2) bad] show ?thesis
      using p True g1(1) by (simp add: list_nth_def)
  qed
qed

lemma set_tiles_fail:
  assumes sq: "square_grid (nat (grid_size (config gm))) (grid gm)"
    and small: "\<not> covers (nat (grid_size (config gm))) tiles"
  shows "set_tiles gm tiles = Inl IndexError"
proof -
  define n where "n = nat (grid_size (config gm))"
  have cells: "\<forall>p\<in>set (grid_cells (grid_size (config gm))). fst p < n \<and> snd p < n"
    by (auto simp add: set_grid_cells n_def)
  have "\<exists>r c. r < n \<and> c < n \<and> \<not> (r < length tiles \<and> c < length (tiles ! r))"
  proof (cases "n \<le> length tiles")
    case False
    then have "length tiles < n \<and> 0 < n \<and> \<not> (length tiles < length tiles \<and> 0 < length (tiles ! length tiles))"
      by simp
    then show ?thesis by blast
  next
    case True
    then obtain r where r: "r < n" "\<not> n \<le> length (tiles ! r)"
      using small by (auto simp add: covers_iff n_def)
    then have "r < n \<and> length (tiles ! r) < n \<and>
        \<not> (r < length tiles \<and> length (tiles ! r) < length (tiles ! r))" by simp
    then show ?thesis by blast
  qed
  then have bad: "\<exists>p\<in>set (grid_cells (grid_size (config gm))).
      \<not> (fst p < length tiles \<and> snd p < length (tiles ! fst p))"
    by (auto simp add: set_grid_cells n_def)
  from set_tiles_loop_fail[OF cells sq[folded n_def] bad]
  show ?thesis by (simp add: set_tiles_def)
qed


lemma load_dict_after_config:
  assumes cfg: "d_config gd = Some kw" "GameConfig_init kw = Inr cfg"
  shows "\<exists>g0 rs'. config g0 = cfg \<and> square_grid (nat (grid_size cfg)) (grid g0) \<and>
     load_dict gd rs =
       ebind (dict_get ''grid'' (d_grid gd)) (\<lambda>rows.
       ebind (set_tiles g0 (map (map Tile_init) rows)) (\<lambda>gm1.
       ebind (dict_get ''score'' (d_score gd)) (\<lambda>sc.
       ebind (dict_get ''movement_matrix'' (d_movement_matrix gd)) (\<lambda>mm.
       ebind (dict_get ''latest_spawn_result'' (d_latest_spawn_result gd)) (\<lambda>res.
       ebind (dict_get ''latest_spawn_locations'' (d_latest_spawn_locations gd)) (\<lambda>locs.
         Inr (gm1\<lparr>score := sc, movement_matrix := mm, latest_spawn_result := res,
                  latest_spawn_locations := locs\<rparr>, rs')))))))"
proof -
  from Game_init_total[of cfg rs]
  obtain g locs rs' where r: "Game_init cfg rs =
      Inr (\<lparr>config = cfg, init_mode = False, grid = g, score = 0,
            movement_matrix =
              map (\<lambda>_. map (\<lambda>_. 0) (range_nat (grid_size cfg))) (range_nat (grid_size cfg)),
            latest_spawn_result = None, latest_spawn_locations = locs\<rparr>, rs')"
      "square_grid (nat (grid_size cfg)) g" by blast
  let ?g0 = "\<lparr>config = cfg, init_mode = False, grid = g, score = 0,
            movement_matrix =
              map (\<lambda>_. map (\<lambda>_. 0) (range_nat (grid_size cfg))) (range_nat (grid_size cfg)),
            latest_spawn_result = None, latest_spawn_locations = locs\<rparr>"
  have "load_dict gd rs =
       ebind (dict_get ''grid'' (d_grid gd)) (\<lambda>rows.
       ebind (set_tiles ?g0 (map (map Tile_init) rows)) (\<lambda>gm1.
       ebind (dict_get ''score'' (d_score gd)) (\<lambda>sc.
       ebind (dict_get ''movement_matrix'' (d_movement_matrix gd)) (\<lambda>mm.
       ebind (dict_get ''latest_spawn_result'' (d_latest_spawn_result gd)) (\<lambda>res.
       ebind (dict_get ''latest_spawn_locations'' (d_latest_spawn_locations gd)) (\<lambda>locs.
         Inr (gm1\<lparr>score := sc, movement_matrix := mm, latest_spawn_result := res,
                  latest_spawn_locations := locs\<rparr>, rs')))))))"
    using cfg r(1) by (simp add: load_dict_def dict_get_def)
  moreover have "config ?g0 = cfg" "square_grid (nat (grid_size cfg)) (grid ?g0)"
    using r(2) by simp_all
  ultimately show ?thesis by blast
qed


lemma load_dict_result:
  "case load_failure gd of
     Some e \<Rightarrow> load_dict gd rs = Inl e
   | None \<Rightarrow>
      (\<exists>gm rs' kw rows. load_dict gd rs = Inr (gm, rs') \<and>
         d_config gd = Some kw \<and> d_grid gd = Some rows \<and>
         GameConfig_init kw = Inr (config gm) \<and>
         grid gm = map (map Tile_init)
                     (map (take (nat (grid_size (config gm))))
                        (take (nat (grid_size (config gm))) rows)) \<and>
         d_score gd = Some (score gm) \<and>
         d_movement_matrix gd = Some (movement_matrix gm) \<and>
         d_latest_spawn_result gd = Some (latest_spawn_result gm) \<and>
         d_latest_spawn_locations gd = Some (latest_spawn_locations gm))"
proof (cases "d_config gd")
  case None
  then show ?thesis by (simp add: load_dict_def dict_get_def load_failure_def)
next
  case (Some kw)
  show ?thesis
  proof (cases "kw_other kw = []")
    case False
    then show ?thesis using Some
      by (simp add: load_dict_def dict_get_def load_failure_def GameConfig_init_def)
  next
    case True
    obtain cfg where cfg: "GameConfig_init kw = Inr cfg"
      "grid_size cfg = or_default (kw_grid_size kw) 4"
      using True by (simp add: GameConfig_init_def)
    from load_dict_after_config[OF Some cfg(1), of rs]
    obtain g0 rs' where g0: "config g0 = cfg" "square_grid (nat (grid_size cfg)) (grid g0)"
     "load_dict gd rs =
       ebind (dict_get ''grid'' (d_grid gd)) (\<lambda>rows.
       ebind (set_tiles g0 (map (map Tile_init) rows)) (\<lambda>gm1.
       ebind (dict_get ''score'' (d_score gd)) (\<lambda>sc.
       ebind (dict_get ''movement_matrix'' (d_movement_matrix gd)) (\<lambda>mm.
       ebind (dict_get ''latest_spawn_result'' (d_latest_spawn_result gd)) (\<lambda>res.
       ebind (dict_get ''latest_spawn_locations'' (d_latest_spawn_locations gd)) (\<lambda>locs.
         Inr (gm1\<lparr>score := sc, movement_matrix := mm, latest_spawn_result := res,
                  latest_spawn_locations := locs\<rparr>, rs')))))))"
      by blast
    let ?n = "nat (grid_size cfg)"
    show ?thesis
    proof (cases "d_grid gd")
      case None
      then show ?thesis using Some True g0(3) by (simp add: dict_get_def load_failure_def)
    next
      case rows: (Some rows)
      show ?thesis
      proof (cases "covers ?n rows")
        case False
        then have "\<not> covers (nat (grid_size (config g0))) (map (map Tile_init) rows)"
          using g0(1) by (simp add: covers_map)
        from set_tiles_fail[OF _ this] g0(1,2)
        have "set_tiles g0 (map (map Tile_init) rows) = Inl IndexError" by simp
        then show ?thesis using Some rows g0(3) False True cfg(2)
          by (simp add: dict_get_def load_failure_def)
      next
        case cov: True
        then have big: "?n \<le> length (map (map Tile_init) rows)"
          "\<forall>r<?n. ?n \<le> length (map (map Tile_init) rows ! r)"
          by (simp_all add: covers_iff)
        have st: "set_tiles g0 (map (map Tile_init) rows) =
            Inr (g0\<lparr>grid := map (map Tile_init) (map (take ?n) (take ?n rows))\<rparr>)"
          using set_tiles_ok[of g0 "map (map Tile_init) rows"] g0(1,2) big
          by (simp add: take_map)
        show ?thesis
          using Some rows g0(1,3) cov True cfg st
          by (cases "d_score gd"; cases "d_movement_matrix gd";
              cases "d_latest_spawn_result gd"; cases "d_latest_spawn_locations gd")
             (simp_all add: dict_get_def load_failure_def)
      qed
    qed
  qed
qed

text \<open>
  C8, where it fails: \<open>load\<close> accepts a malformed saved state. From a configuration
  that names only the grid size it builds a configuration with the defaults for the rest;
  it keeps the upper left 2x2 block of the 3x3 grid and drops the rest; and it stores
  the out-of-range tile values, the negative score, the misshapen movement matrix and
  the off-board spawn location as they are.
\<close>

theorem load_accepts_malformed:
  "load (example_loads malformed_save) ''known'' fixed_draws =
     Inr (\<lparr>config = default_config\<lparr>grid_size := 2\<rparr>, init_mode = False,
           grid = map (map Tile_init) [[1, - 3], [0, 5]],
           score = - 7, movement_matrix = [[9]],
           latest_spawn_result = None, latest_spawn_locations = [Some (PyList 10 10)]\<rparr>,
          fixed_draws\<lparr>randint_calls := 2, rand_calls := 2\<rparr>)"
  by (simp add: load_def example_loads_def json_form_def load_dict_def malformed_save_def
      dict_get_def GameConfig_init_def or_default_def set_tiles_def spawn_eval)

text \<open>
  C8, amended. \<open>load\<close> validates nothing. A string that the JSON library rejects makes
  it fail with the library's error. For a string read as a dictionary whose values have
  the types that \<open>to_json\<close> writes and whose grid size (given, or the default 4) is at
  least 1, it fails exactly when \<open>load_failure\<close> names an exception, and with that
  one: KeyError for a missing key, TypeError for a configuration with a key that is no
  field, IndexError for a saved grid with too few rows or a too short row among the first
  ones. Otherwise it returns a game: with the defaults for the configuration fields that
  are missing, the upper left block of the saved grid, and the other four values as
  given.
\<close>

theorem load_checks:
  "(\<forall>e. loads s = Inl e \<longrightarrow> load loads s rs = Inl e) \<and>
   (\<forall>gd e. loads s = Inr gd \<and> positive_grid_size gd \<and> load_failure gd = Some e \<longrightarrow>
      load loads s rs = Inl e) \<and>
   (\<forall>gd. loads s = Inr gd \<and> positive_grid_size gd \<and> load_failure gd = None \<longrightarrow>
      (\<exists>gm rs' kw rows. load loads s rs = Inr (gm, rs') \<and>
         d_config gd = Some kw \<and> d_grid gd = Some rows \<and>
         GameConfig_init kw = Inr (config gm) \<and>
         grid gm = map (map Tile_init)
                     (map (take (nat (grid_size (config gm))))
                        (take (nat (grid_size (config gm))) rows)) \<and>
         d_score gd = Some (score gm) \<and>
         d_movement_matrix gd = Some (movement_matrix gm) \<and>
         d_latest_spawn_result gd = Some (latest_spawn_result gm) \<and>
         d_latest_spawn_locations gd = Some (latest_spawn_locations gm)))"
proof (intro conjI allI impI)
  fix e assume "loads s = Inl e"
  then show "load loads s rs = Inl e" by (simp add: load_def)
next
  fix gd e assume a: "loads s = Inr gd \<and> positive_grid_size gd \<and> load_failure gd = Some e"
  then have "load_dict gd rs = Inl e" using load_dict_result[of gd rs] by simp
  then show "load loads s rs = Inl e" using a by (simp add: load_def)
next
  fix gd assume a: "loads s = Inr gd \<and> positive_grid_size gd \<and> load_failure gd = None"
  then have l: "load loads s rs = load_dict gd rs" by (simp add: load_def)
  show "\<exists>gm rs' kw rows. load loads s rs = Inr (gm, rs') \<and>
         d_config gd = Some kw \<and> d_grid gd = Some rows \<and>
         GameConfig_init kw = Inr (config gm) \<and>
         grid gm = map (map Tile_init)
                     (map (take (nat (grid_size (config gm))))
                        (take (nat (grid_size (config gm))) rows)) \<and>
         d_score gd = Some (score gm) \<and>
         d_movement_matrix gd = Some (movement_matrix gm) \<and>
         d_latest_spawn_result gd = Some (latest_spawn_result gm) \<and>
         d_latest_spawn_locations gd = Some (latest_spawn_locations gm)"
    unfolding l using load_dict_result[of gd rs] a by simp
qed


theorem load_checks_witness:
  "example_loads malformed_save ''garbage'' = Inl ValueError \<and>
   load (example_loads malformed_save) ''garbage'' fixed_draws = Inl ValueError \<and>
   example_loads (malformed_save\<lparr>d_grid := Some [[1, 2]]\<rparr>) ''known''
     = Inr (malformed_save\<lparr>d_grid := Some [[1, 2]]\<rparr>) \<and>
   positive_grid_size (malformed_save\<lparr>d_grid := Some [[1, 2]]\<rparr>) \<and>
   load_failure (malformed_save\<lparr>d_grid := Some [[1, 2]]\<rparr>) = Some IndexError \<and>
   load (example_loads (malformed_save\<lparr>d_grid := Some [[1, 2]]\<rparr>)) ''known'' fixed_draws
     = Inl IndexError \<and>
   example_loads (to_dict saved_game) ''known'' = Inr (json_form (to_dict saved_game)) \<and>
   positive_grid_size (json_form (to_dict saved_game)) \<and>
   load_failure (json_form (to_dict saved_game)) = None \<and>
   (\<exists>gm rs'. load (example_loads (to_dict saved_game)) ''known'' fixed_draws = Inr (gm, rs') \<and>
      score gm = 0 \<and> latest_spawn_locations gm = [Some (PyList 1 0), Some (PyList 4 4)])"
proof -
  let ?small = "malformed_save\<lparr>d_grid := Some [[1, 2]]\<rparr>"
  let ?good = "json_form (to_dict saved_game)"
  have p1: "example_loads malformed_save ''garbage'' = Inl ValueError"
    by (simp add: example_loads_def)
  have s1: "example_loads ?small ''known'' = Inr ?small"
    by (simp add: example_loads_def json_form_def malformed_save_def)
  have s2: "positive_grid_size ?small"
    by (simp add: positive_grid_size_def malformed_save_def or_default_def)
  have s3: "load_failure ?small = Some IndexError"
    by (simp add: load_failure_def malformed_save_def or_default_def covers_def)
  have g1: "example_loads (to_dict saved_game) ''known'' = Inr ?good"
    by (simp add: example_loads_def)
  have g2: "positive_grid_size ?good"
    by (simp add: positive_grid_size_def json_form_def to_dict_def config_dict_def
        or_default_def saved_game_def game_with_tiles_def default_config_def)
  have g3: "load_failure ?good = None"
    by (simp add: load_failure_def json_form_def to_dict_def config_dict_def
        or_default_def covers_def saved_game_def grid_eval)
  have r1: "load (example_loads malformed_save) ''garbage'' fixed_draws = Inl ValueError"
    using load_checks[of "example_loads malformed_save" "''garbage''" fixed_draws] p1 by blast
  have r2: "load (example_loads ?small) ''known'' fixed_draws = Inl IndexError"
    using load_checks[of "example_loads ?small" "''known''" fixed_draws] s1 s2 s3 by blast
  from load_checks[of "example_loads (to_dict saved_game)" "''known''" fixed_draws] g1 g2 g3
  obtain gm rs' where r3:
    "load (example_loads (to_dict saved_game)) ''known'' fixed_draws = Inr (gm, rs')"
    "d_score ?good = Some (score gm)"
    "d_latest_spawn_locations ?good = Some (latest_spawn_locations gm)"
    by blast
  have "score gm = 0" "latest_spawn_locations gm = [Some (PyList 1 0), Some (PyList 4 4)]"
    using r3(2,3) by (simp_all add: json_form_def to_dict_def saved_game_def game_with_tiles_def)
  then show ?thesis using p1 r1 s1 s2 s3 r2 g1 g2 g3 r3(1) by blast
qed

end
